theory Spec2Isabelle
  imports Main "HOL-Library.Word"
begin

unbundle bit_operations_syntax

section \<open>JavaScript strings\<close>

text \<open>
  The worker is TypeScript; its strings are sequences of code units. The model takes
  \<^typ>\<open>string\<close> (a list of 8-bit characters) for the strings whose code units lie
  in U+0000..U+00FF, and gives every library function the program calls its ECMAScript
  meaning on that range: \<open>trim\<close> and the class \<open>\s\<close> remove TAB, LF, VT, FF, CR,
  SPACE and NBSP; \<open>toLowerCase\<close> maps A..Z and the Latin-1 capitals; \<open>.\<close> in a
  regular expression matches everything but LF and CR. Bytes are \<^typ>\<open>8 word\<close>.
\<close>

type_synonym byte = "8 word"

definition isWhiteSpace :: "char \<Rightarrow> bool" where
  "isWhiteSpace c \<longleftrightarrow>
     c = CHR 0x09 \<or> c = CHR 0x0A \<or> c = CHR 0x0B \<or> c = CHR 0x0C \<or> c = CHR 0x0D
     \<or> c = CHR 0x20 \<or> c = CHR 0xA0"

definition isLineTerminator :: "char \<Rightarrow> bool" where
  "isLineTerminator c \<longleftrightarrow> c = CHR 0x0A \<or> c = CHR 0x0D"

definition isDigit :: "char \<Rightarrow> bool" where
  "isDigit c \<longleftrightarrow> (48::nat) \<le> of_char c \<and> of_char c \<le> (57::nat)"

definition isUpper :: "char \<Rightarrow> bool" where
  "isUpper c \<longleftrightarrow> (65::nat) \<le> of_char c \<and> of_char c \<le> (90::nat)"

definition isLower :: "char \<Rightarrow> bool" where
  "isLower c \<longleftrightarrow> (97::nat) \<le> of_char c \<and> of_char c \<le> (122::nat)"

definition isAlpha :: "char \<Rightarrow> bool" where
  "isAlpha c \<longleftrightarrow> isUpper c \<or> isLower c"

definition isAlnum :: "char \<Rightarrow> bool" where
  "isAlnum c \<longleftrightarrow> isAlpha c \<or> isDigit c"

text \<open>\<open>String.prototype.trim\<close>.\<close>

definition trim :: "string \<Rightarrow> string" where
  "trim s = rev (dropWhile isWhiteSpace (rev (dropWhile isWhiteSpace s)))"

text \<open>\<open>String.prototype.toLowerCase\<close> on U+0000..U+00FF: A..Z, and the capitals
  U+00C0..U+00DE without the multiplication sign U+00D7, move up by 32.\<close>

definition lowerChar :: "char \<Rightarrow> char" where
  "lowerChar c =
     (let n = (of_char c :: nat)
      in if (65 \<le> n \<and> n \<le> 90) \<or> (192 \<le> n \<and> n \<le> 214) \<or> (216 \<le> n \<and> n \<le> 222)
         then char_of (n + 32) else c)"

definition toLowerCase :: "string \<Rightarrow> string" where
  "toLowerCase s = map lowerChar s"

definition startsWith :: "string \<Rightarrow> string \<Rightarrow> bool" where
  "startsWith s p \<longleftrightarrow> take (length p) s = p"

definition endsWith :: "string \<Rightarrow> string \<Rightarrow> bool" where
  "endsWith s p \<longleftrightarrow> length p \<le> length s \<and> drop (length s - length p) s = p"

text \<open>\<open>String.prototype.includes\<close>: the needle occurs at some position.\<close>

fun includesStr :: "string \<Rightarrow> string \<Rightarrow> bool" where
  "includesStr [] p = (p = [])"
| "includesStr (c # cs) p = (startsWith (c # cs) p \<or> includesStr cs p)"

text \<open>\<open>String.prototype.indexOf\<close> of one character; \<open>None\<close> is the source's \<open>-1\<close>.\<close>

definition indexOf :: "string \<Rightarrow> char \<Rightarrow> nat option" where
  "indexOf s c = (if c \<in> set s then Some (length (takeWhile (\<lambda>x. x \<noteq> c) s)) else None)"

text \<open>\<open>String.prototype.split\<close> at one character: never the empty list.\<close>

fun splitOn :: "char \<Rightarrow> string \<Rightarrow> string list" where
  "splitOn d [] = [[]]"
| "splitOn d (c # cs) =
     (if c = d then [] # splitOn d cs
      else (case splitOn d cs of p # ps \<Rightarrow> (c # p) # ps | [] \<Rightarrow> [[c]]))"

text \<open>\<open>Array.prototype.join\<close>.\<close>

fun joinWith :: "string \<Rightarrow> string list \<Rightarrow> string" where
  "joinWith sep [] = []"
| "joinWith sep [x] = x"
| "joinWith sep (x # y # ys) = x @ sep @ joinWith sep (y # ys)"

section \<open>Regular expressions\<close>

text \<open>
  Every regular expression of the worker is a flat sequence of anchors and quantified
  character classes, with capture groups around single quantified classes. The matcher
  below is the backtracking matcher of ECMAScript on such sequences: a quantified class may
  take any number of characters up to the longest run of the class at the current
  position, a greedy quantifier tries the longest first, a lazy one the shortest first,
  and the first alternative under which the rest of the pattern matches is taken.
  \<open>regexMatch\<close> is \<open>String.prototype.match\<close> without the \<open>g\<close> flag: the
  captures of the leftmost match, the start positions being tried from left to right.
\<close>

datatype quant = One | Opt | Star | Plus | LazyStar

datatype item = Bol | Eol | Cls "char \<Rightarrow> bool" quant | Grp "char \<Rightarrow> bool" quant

type_synonym regex = "item list"

fun candidates :: "quant \<Rightarrow> nat \<Rightarrow> nat list" where
  "candidates One n = (if 1 \<le> n then [1] else [])"
| "candidates Opt n = (if 1 \<le> n then [1, 0] else [0])"
| "candidates Star n = rev [0..<Suc n]"
| "candidates Plus n = rev [1..<Suc n]"
| "candidates LazyStar n = [0..<Suc n]"

text \<open>\<open>matchItems\<close> matches a pattern at the current position; \<open>tryCounts\<close> tries, in
  the given order, the numbers of characters the quantified class in front of the pattern
  \<open>r\<close> may take, and records the text taken when the class is a capture group.\<close>

function matchItems :: "regex \<Rightarrow> bool \<Rightarrow> string \<Rightarrow> string list option"
  and tryCounts :: "bool \<Rightarrow> regex \<Rightarrow> bool \<Rightarrow> string \<Rightarrow> nat list \<Rightarrow> string list option"
where
  "matchItems [] atStart s = Some []"
| "matchItems (Bol # r) atStart s = (if atStart then matchItems r atStart s else None)"
| "matchItems (Eol # r) atStart s = (if s = [] then matchItems r atStart s else None)"
| "matchItems (Cls p q # r) atStart s =
     tryCounts False r atStart s (candidates q (length (takeWhile p s)))"
| "matchItems (Grp p q # r) atStart s =
     tryCounts True r atStart s (candidates q (length (takeWhile p s)))"
| "tryCounts grp r atStart s [] = None"
| "tryCounts grp r atStart s (k # ks) =
     (case matchItems r (atStart \<and> k = 0) (drop k s) of
        Some caps \<Rightarrow> Some (if grp then take k s # caps else caps)
      | None \<Rightarrow> tryCounts grp r atStart s ks)"
  by pat_completeness auto
termination
  by (relation "measures [\<lambda>x. case x of Inl (r, _, _) \<Rightarrow> 2 * length r
                                      | Inr (_, r, _, _, _) \<Rightarrow> 2 * length r + 1,
                          \<lambda>x. case x of Inl _ \<Rightarrow> 0 | Inr (_, _, _, _, ks) \<Rightarrow> length ks]")
     auto

fun searchItems :: "regex \<Rightarrow> bool \<Rightarrow> string \<Rightarrow> string list option" where
  "searchItems r atStart [] = matchItems r atStart []"
| "searchItems r atStart (c # cs) =
     (case matchItems r atStart (c # cs) of
        Some caps \<Rightarrow> Some caps
      | None \<Rightarrow> searchItems r False cs)"

definition regexMatch :: "regex \<Rightarrow> string \<Rightarrow> string list option" where
  "regexMatch r s = searchItems r True s"

definition regexTest :: "regex \<Rightarrow> string \<Rightarrow> bool" where
  "regexTest r s \<longleftrightarrow> regexMatch r s \<noteq> None"

text \<open>Pattern characters: a literal, a literal under the \<open>i\<close> flag (the patterns of the
  worker are ASCII: a letter matches both of its cases, any other character itself),
  \<open>.\<close>, \<open>[^x]\<close>, \<open>\s\<close>, \<open>[\s\S]\<close>.\<close>

definition lit :: "char \<Rightarrow> item" where
  "lit x = Cls (\<lambda>c. c = x) One"

definition otherCase :: "char \<Rightarrow> char" where
  "otherCase x =
     (case map_of (zip ''abcdefghijklmnopqrstuvwxyzABCDEFGHIJKLMNOPQRSTUVWXYZ''
                       ''ABCDEFGHIJKLMNOPQRSTUVWXYZabcdefghijklmnopqrstuvwxyz'') x of
        Some y \<Rightarrow> y
      | None \<Rightarrow> x)"

definition lit_i :: "char \<Rightarrow> item" where
  "lit_i x = Cls (\<lambda>c. c = x \<or> c = otherCase x) One"

definition dot :: "char \<Rightarrow> bool" where
  "dot c \<longleftrightarrow> \<not> isLineTerminator c"

definition notChar :: "char \<Rightarrow> char \<Rightarrow> bool" where
  "notChar x c \<longleftrightarrow> c \<noteq> x"

definition anyChar :: "char \<Rightarrow> bool" where
  "anyChar c \<longleftrightarrow> True"

definition lits_i :: "string \<Rightarrow> regex" where
  "lits_i xs = map lit_i xs"

section \<open>Data model\<close>

text \<open>One header of \<open>ParsedEmail.headers\<close>: \<open>{ raw, name, value }\<close>.\<close>

record Header =
  hraw :: string
  hname :: string
  hvalue :: string

text \<open>The header the parser and the rewriting stages build from a name and a value:
  \<open>{ raw: `${name}: ${value}`, name, value }\<close>.\<close>

definition mkHeader :: "string \<Rightarrow> string \<Rightarrow> Header" where
  "mkHeader n v = \<lparr>hraw = n @ '': '' @ v, hname = n, hvalue = v\<rparr>"

record ParsedEmail =
  headers :: "Header list"
  body :: "byte list"

record ProcessingResult =
  canContinue :: bool
  rejectReason :: "string option"

definition continue :: ProcessingResult where
  "continue = \<lparr>canContinue = True, rejectReason = None\<rparr>"

definition reject :: "string \<Rightarrow> ProcessingResult" where
  "reject reason = \<lparr>canContinue = False, rejectReason = Some reason\<rparr>"

section \<open>Address utilities\<close>

text \<open>\<open>splitAddresses\<close>: the loop over the characters with its three variables
  \<open>parts\<close>, \<open>current\<close> and \<open>inQuotes\<close>.\<close>

fun splitAddressesLoop :: "string \<Rightarrow> string list \<Rightarrow> string \<Rightarrow> bool \<Rightarrow> string list \<times> string" where
  "splitAddressesLoop [] parts current inQuotes = (parts, current)"
| "splitAddressesLoop (c # cs) parts current inQuotes =
     (if c = CHR 0x22 then splitAddressesLoop cs parts (current @ [c]) (\<not> inQuotes)
      else if c = CHR '','' \<and> \<not> inQuotes then splitAddressesLoop cs (parts @ [trim current]) [] inQuotes
      else splitAddressesLoop cs parts (current @ [c]) inQuotes)"

definition splitAddresses :: "string \<Rightarrow> string list" where
  "splitAddresses headerValue =
     (case splitAddressesLoop headerValue [] [] False of
        (parts, current) \<Rightarrow> if trim current \<noteq> [] then parts @ [trim current] else parts)"

text \<open>\<open>stripQuotes\<close>: \<open>slice(1, -1)\<close> drops the first and the last character (of a
  one-character string nothing is left).\<close>

definition stripQuotes :: "string \<Rightarrow> string" where
  "stripQuotes str =
     (if (startsWith str [CHR 0x22] \<and> endsWith str [CHR 0x22])
         \<or> (startsWith str [CHR 0x27] \<and> endsWith str [CHR 0x27])
      then butlast (tl str) else str)"

text \<open>\<open>/^(.*)<([^>]+)>.*$/\<close>\<close>

definition angleRegex :: regex where
  "angleRegex = [Bol, Grp dot Star, lit (CHR ''<''), Grp (notChar (CHR ''>'')) Plus,
                 lit (CHR ''>''), Cls dot Star, Eol]"

text \<open>\<open>parseAddress\<close> returns \<open>{ displayName, address }\<close>, here a pair.\<close>

definition parseAddress :: "string \<Rightarrow> string \<times> string" where
  "parseAddress addrStr =
     (case regexMatch angleRegex addrStr of
        Some [g1, g2] \<Rightarrow> (stripQuotes (trim g1), trim g2)
      | _ \<Rightarrow> ([], trim addrStr))"

definition formatAddress :: "string \<Rightarrow> string \<Rightarrow> string" where
  "formatAddress displayName address =
     (if displayName \<noteq> [] then [CHR 0x22] @ displayName @ [CHR 0x22] @ '' <'' @ address @ ''>''
      else address)"

section \<open>Subaddressing\<close>

text \<open>\<open>/^([^+]+)\+([^@]+)@(.*)$/\<close>\<close>

definition plusRegex :: regex where
  "plusRegex = [Bol, Grp (notChar (CHR ''+'')) Plus, lit (CHR ''+''),
                Grp (notChar (CHR ''@'')) Plus, lit (CHR ''@''), Grp dot Star, Eol]"

text \<open>
  \<open>processSubaddressing\<close> maps over the headers and, inside a header named To, over its
  addresses; both callbacks read and write the one variable \<open>subaddressTag\<close>. The model
  threads that variable through the two maps: \<open>mapAccum\<close> is a map whose callback
  takes the variable and returns it updated.
\<close>

fun mapAccum :: "('s \<Rightarrow> 'a \<Rightarrow> 's \<times> 'b) \<Rightarrow> 's \<Rightarrow> 'a list \<Rightarrow> 's \<times> 'b list" where
  "mapAccum f s [] = (s, [])"
| "mapAccum f s (x # xs) =
     (case f s x of (s', y) \<Rightarrow> (case mapAccum f s' xs of (s'', ys) \<Rightarrow> (s'', y # ys)))"

definition subaddressAddress :: "string \<Rightarrow> string \<Rightarrow> string \<times> string" where
  "subaddressAddress subaddressTag addr =
     (case parseAddress addr of (displayName, address) \<Rightarrow>
        (case regexMatch plusRegex address of
           Some [localPart, tag, domainPart] \<Rightarrow>
             (if subaddressTag = [] then tag else subaddressTag,
              formatAddress displayName (localPart @ ''@'' @ domainPart))
         | _ \<Rightarrow> (subaddressTag, addr)))"

definition subaddressHeader :: "string \<Rightarrow> Header \<Rightarrow> string \<times> Header" where
  "subaddressHeader subaddressTag h =
     (if toLowerCase (hname h) = ''to''
      then (case mapAccum subaddressAddress subaddressTag (splitAddresses (hvalue h)) of
              (tag', updatedAddressParts) \<Rightarrow>
                (let newValue = joinWith '', '' updatedAddressParts
                 in (tag', h\<lparr>hvalue := newValue, hraw := hname h @ '': '' @ newValue\<rparr>)))
      else (subaddressTag, h))"

text \<open>The result \<open>{ subaddressTag, updatedHeaders }\<close> is a pair.\<close>

definition processSubaddressing :: "Header list \<Rightarrow> string \<times> Header list" where
  "processSubaddressing hs = mapAccum subaddressHeader [] hs"

definition prependSubjectTag :: "Header list \<Rightarrow> string \<Rightarrow> Header list" where
  "prependSubjectTag hs tag =
     (if tag = [] then hs
      else (let bracketTag = ''['' @ tag @ '']''
            in map (\<lambda>h. if toLowerCase (hname h) = ''subject''
                             \<and> \<not> includesStr (toLowerCase (hvalue h)) (toLowerCase bracketTag)
                          then (let newValue = bracketTag @ '' '' @ hvalue h
                                in h\<lparr>hvalue := newValue, hraw := hname h @ '': '' @ newValue\<rparr>)
                          else h) hs))"

text \<open>An address whose mailbox has the form \<open>local+tag@domain\<close> of \<open>plusRegex\<close>, and a
  header value that the stage would write back as it is: the value is the \<open>, \<close>-join of
  its own addresses and none of them has a tag.\<close>

definition matchesSubaddress :: "string \<Rightarrow> bool" where
  "matchesSubaddress addr \<longleftrightarrow> regexMatch plusRegex (snd (parseAddress addr)) \<noteq> None"

definition strippedValue :: "string \<Rightarrow> bool" where
  "strippedValue v \<longleftrightarrow>
     joinWith '', '' (splitAddresses v) = v
     \<and> (\<forall>a \<in> set (splitAddresses v). \<not> matchesSubaddress a)"

section \<open>Reading the raw stream\<close>

text \<open>What a call can throw: \<open>RangeError\<close> (thrown by the platform) and \<open>new Error(msg)\<close>.\<close>

datatype exn = RangeError | Error string

text \<open>
  \<open>streamToArrayBuffer\<close>. The stream is the list of the chunks its reader delivers before
  it reports \<open>done\<close>; a chunk of a \<open>ReadableStream<Uint8Array>\<close> is an array, so the test
  \<open>!value\<close> never ends the loop early. \<open>result.set(value, bytesRead)\<close> throws a
  \<open>RangeError\<close> when \<open>bytesRead + value.length\<close> exceeds the length of \<open>result\<close>, and
  otherwise overwrites that many elements from index \<open>bytesRead\<close>.
\<close>

fun readLoop :: "byte list list \<Rightarrow> byte list \<Rightarrow> nat \<Rightarrow> exn + byte list" where
  "readLoop [] result bytesRead = Inr result"
| "readLoop (v # chunks) result bytesRead =
     (if length result < bytesRead + length v then Inl RangeError
      else readLoop chunks
             (take bytesRead result @ v @ drop (bytesRead + length v) result)
             (bytesRead + length v))"

definition streamToArrayBuffer :: "byte list list \<Rightarrow> nat \<Rightarrow> exn + byte list" where
  "streamToArrayBuffer stream streamSize = readLoop stream (replicate streamSize 0) 0"

section \<open>Parsing and serialising a message\<close>

text \<open>\<open>TextDecoder\<close> and \<open>TextEncoder\<close> belong to the platform; the functions that use
  them take the pair as a parameter.\<close>

record TextCodec =
  decode :: "byte list \<Rightarrow> string"
  encode :: "string \<Rightarrow> byte list"

text \<open>\<open>text.replace(/\r?\n/g, '\n')\<close>: a CR directly before an LF disappears.\<close>

fun normaliseNewlines :: "string \<Rightarrow> string" where
  "normaliseNewlines [] = []"
| "normaliseNewlines [c] = [c]"
| "normaliseNewlines (c # d # cs) =
     (if c = CHR 0x0D \<and> d = CHR 0x0A then CHR 0x0A # normaliseNewlines cs
      else c # normaliseNewlines (d # cs))"

definition allLines :: "string \<Rightarrow> string list" where
  "allLines text = splitOn (CHR 0x0A) (normaliseNewlines text)"

text \<open>The variables of the loop of \<open>parseEmail\<close>.\<close>

record ParseState =
  psHeaders :: "Header list"
  bodyLines :: "string list"
  isHeaderSection :: bool
  currentHeaderName :: string
  currentHeaderValue :: string

text \<open>\<open>if (currentHeaderName) headers.push({ raw, name, value })\<close>\<close>

definition pushCurrent :: "ParseState \<Rightarrow> Header list" where
  "pushCurrent st =
     (if currentHeaderName st \<noteq> []
      then psHeaders st @ [mkHeader (currentHeaderName st) (currentHeaderValue st)]
      else psHeaders st)"

text \<open>\<open>/^[ \t]/.test(line)\<close>\<close>

definition startsWithBlank :: "string \<Rightarrow> bool" where
  "startsWithBlank line = (case line of [] \<Rightarrow> False | c # _ \<Rightarrow> c = CHR 0x20 \<or> c = CHR 0x09)"

definition parseLine :: "ParseState \<Rightarrow> string \<Rightarrow> ParseState" where
  "parseLine st line =
     (if isHeaderSection st then
        (if trim line = [] then st\<lparr>psHeaders := pushCurrent st, isHeaderSection := False\<rparr>
         else if startsWithBlank line
         then st\<lparr>currentHeaderValue := currentHeaderValue st @ '' '' @ trim line\<rparr>
         else (case indexOf line (CHR '':'') of
                 Some idx \<Rightarrow> st\<lparr>psHeaders := pushCurrent st,
                                currentHeaderName := trim (take idx line),
                                currentHeaderValue := trim (drop (idx + 1) line)\<rparr>
               | None \<Rightarrow> st\<lparr>psHeaders := pushCurrent st,
                            currentHeaderName := trim line,
                            currentHeaderValue := []\<rparr>))
      else st\<lparr>bodyLines := bodyLines st @ [line]\<rparr>)"

definition initialParseState :: ParseState where
  "initialParseState = \<lparr>psHeaders = [], bodyLines = [], isHeaderSection = True,
                         currentHeaderName = [], currentHeaderValue = []\<rparr>"

definition parseEmail :: "TextCodec \<Rightarrow> byte list \<Rightarrow> ParsedEmail" where
  "parseEmail codec rawEmail =
     (let st = foldl parseLine initialParseState (allLines (decode codec rawEmail))
      in \<lparr>headers = (if currentHeaderName st \<noteq> [] \<and> isHeaderSection st
                      then psHeaders st @ [mkHeader (currentHeaderName st) (currentHeaderValue st)]
                      else psHeaders st),
          body = encode codec (joinWith [CHR 0x0A] (bodyLines st))\<rparr>)"

definition reSerialiseEmail :: "TextCodec \<Rightarrow> Header list \<Rightarrow> byte list \<Rightarrow> byte list" where
  "reSerialiseEmail codec hs b =
     (let headerLines = map (\<lambda>h. hname h @ '': '' @ hvalue h) hs;
          textHead = joinWith [CHR 0x0D, CHR 0x0A] headerLines;
          textFinal = textHead @ [CHR 0x0D, CHR 0x0A, CHR 0x0D, CHR 0x0A] @ decode codec b
      in encode codec textFinal)"

section \<open>Domain collapse\<close>

text \<open>\<open>str.split(/[,;]+/)\<close>: the pieces between the maximal runs of separators.\<close>

function splitRuns :: "(char \<Rightarrow> bool) \<Rightarrow> string \<Rightarrow> string list" where
  "splitRuns sep [] = [[]]"
| "splitRuns sep (c # cs) =
     (if sep c then [] # splitRuns sep (dropWhile sep cs)
      else (case splitRuns sep cs of p # ps \<Rightarrow> (c # p) # ps | [] \<Rightarrow> [[c]]))"
  by pat_completeness auto
termination
  by (relation "measure (\<lambda>(sep, s). length s)") (auto simp: length_dropWhile_le less_Suc_eq_le)

definition isSeparator :: "char \<Rightarrow> bool" where
  "isSeparator c \<longleftrightarrow> c = CHR '','' \<or> c = CHR '';''"

text \<open>
  The map is a plain object \<open>{}\<close>, kept as the list of its own properties in insertion
  order. A plain object inherits from \<open>Object.prototype\<close>: the assignment
  \<open>map['__proto__'] = s\<close> of a string creates no property, and reading the absent keys
  \<open>constructor\<close> and \<open>__proto__\<close> gives the function \<open>Object\<close> and the prototype
  object, both truthy. \<open>objectGet\<close> is the string a read contributes to the rewritten
  header, \<open>None\<close> for \<open>undefined\<close>.
\<close>

type_synonym domainMap = "(string \<times> string) list"

fun ownSet :: "domainMap \<Rightarrow> string \<Rightarrow> string \<Rightarrow> domainMap" where
  "ownSet [] k v = [(k, v)]"
| "ownSet ((k', v') # m) k v = (if k' = k then (k, v) # m else (k', v') # ownSet m k v)"

definition objectSet :: "domainMap \<Rightarrow> string \<Rightarrow> string \<Rightarrow> domainMap" where
  "objectSet m k v = (if k = ''__proto__'' then m else ownSet m k v)"

definition objectGet :: "domainMap \<Rightarrow> string \<Rightarrow> string option" where
  "objectGet m k =
     (case map_of m k of
        Some v \<Rightarrow> Some v
      | None \<Rightarrow> if k = ''constructor'' then Some ''function Object() { [native code] }''
                else if k = ''__proto__'' then Some ''[object Object]''
                else None)"

definition configEntries :: "string \<Rightarrow> string list" where
  "configEntries str = filter (\<lambda>s. s \<noteq> []) (map trim (splitRuns isSeparator str))"

fun addEntries :: "string list \<Rightarrow> domainMap \<Rightarrow> domainMap" where
  "addEntries [] m = m"
| "addEntries (entry # entries) m =
     (case indexOf entry (CHR ''='') of
        None \<Rightarrow> addEntries entries m
      | Some eqIndex \<Rightarrow>
          (let domainPart = toLowerCase (trim (take eqIndex entry));
               targetAddress = trim (drop (eqIndex + 1) entry)
           in if domainPart \<noteq> [] \<and> targetAddress \<noteq> []
              then addEntries entries (objectSet m domainPart targetAddress)
              else addEntries entries m))"

definition parseDomainCollapseMap :: "string \<Rightarrow> domainMap" where
  "parseDomainCollapseMap str = addEntries (configEntries str) []"

text \<open>\<open>address.split('@')[1] || ''\<close>: the second piece of the split at every \<open>@\<close>.\<close>

definition domainPartOf :: "string \<Rightarrow> string" where
  "domainPartOf address = (case splitOn (CHR ''@'') address of _ # d # _ \<Rightarrow> d | _ \<Rightarrow> [])"

definition collapseAddress :: "domainMap \<Rightarrow> string \<Rightarrow> string" where
  "collapseAddress m addrStr =
     (case parseAddress addrStr of (displayName, address) \<Rightarrow>
        (let domainLower = toLowerCase (domainPartOf address)
         in case objectGet m domainLower of
              Some target \<Rightarrow> formatAddress displayName target
            | None \<Rightarrow> addrStr))"

definition collapseHeader :: "domainMap \<Rightarrow> Header \<Rightarrow> Header" where
  "collapseHeader m header =
     (if toLowerCase (hname header) \<in> set [''to'', ''cc'', ''bcc'']
      then (let newValue = joinWith '', '' (map (collapseAddress m) (splitAddresses (hvalue header)))
            in header\<lparr>hvalue := newValue, hraw := hname header @ '': '' @ newValue\<rparr>)
      else header)"

section \<open>The pipeline context and its processors\<close>

text \<open>The inbound message: header lookup, the raw stream with its declared size, and the
  reason handed to \<open>setReject\<close>, if any.\<close>

record Message =
  msgHeaders :: "string \<Rightarrow> string option"
  raw :: "byte list list"
  rawSize :: nat
  rejectedWith :: "string option"

record Env =
  ODOO_DATABASE :: "string option"
  ODOO_USERID :: "string option"
  ODOO_PASSWORD :: "string option"
  ODOO_HOST :: "string option"
  ODOO_PORT :: "string option"
  ODOO_PROTOCOL :: "string option"
  DOMAIN_COLLAPSE_MAPPING :: "string option"

record EmailPipelineContext =
  message :: Message
  env :: Env
  rawEmail :: "byte list option"
  parsedEmail :: "ParsedEmail option"
  finalRawEmail :: "byte list option"

text \<open>\<open>x || ''\<close> for an optional string.\<close>

definition orEmpty :: "string option \<Rightarrow> string" where
  "orEmpty x = (case x of None \<Rightarrow> [] | Some s \<Rightarrow> s)"

definition DomainCollapseProcessor_process ::
    "EmailPipelineContext \<Rightarrow> ProcessingResult \<times> EmailPipelineContext" where
  "DomainCollapseProcessor_process ctx =
     (case parsedEmail ctx of
        None \<Rightarrow> (continue, ctx)
      | Some pe \<Rightarrow>
          (let domainCollapseStr = orEmpty (DOMAIN_COLLAPSE_MAPPING (env ctx))
           in if trim domainCollapseStr = [] then (continue, ctx)
              else (let domainMap = parseDomainCollapseMap domainCollapseStr
                    in if domainMap = [] then (continue, ctx)
                       else (continue,
                             ctx\<lparr>parsedEmail :=
                                   Some (pe\<lparr>headers := map (collapseHeader domainMap) (headers pe)\<rparr>)\<rparr>))))"

definition SubaddressingProcessor_process ::
    "EmailPipelineContext \<Rightarrow> ProcessingResult \<times> EmailPipelineContext" where
  "SubaddressingProcessor_process ctx =
     (case parsedEmail ctx of
        None \<Rightarrow> (continue, ctx)
      | Some pe \<Rightarrow>
          (case processSubaddressing (headers pe) of
             (subaddressTag, updatedHeaders) \<Rightarrow>
               (continue,
                ctx\<lparr>parsedEmail :=
                      Some (pe\<lparr>headers := prependSubjectTag updatedHeaders subaddressTag\<rparr>)\<rparr>)))"

text \<open>The mailbox domain as the specification words it: the text after the first \<open>@\<close>.\<close>

definition domainAfterFirstAt :: "string \<Rightarrow> string" where
  "domainAfterFirstAt address =
     (case indexOf address (CHR ''@'') of None \<Rightarrow> [] | Some i \<Rightarrow> drop (i + 1) address)"

text \<open>A context after parsing, for the examples: the given configuration string and the
  given headers, an empty body, nothing else set.\<close>

definition parsedContext :: "string option \<Rightarrow> Header list \<Rightarrow> EmailPipelineContext" where
  "parsedContext cfg hs =
     \<lparr>message = \<lparr>msgHeaders = (\<lambda>n. None), raw = [], rawSize = 0, rejectedWith = None\<rparr>,
      env = \<lparr>ODOO_DATABASE = None, ODOO_USERID = None, ODOO_PASSWORD = None,
             ODOO_HOST = None, ODOO_PORT = None, ODOO_PROTOCOL = None,
             DOMAIN_COLLAPSE_MAPPING = cfg\<rparr>,
      rawEmail = None,
      parsedEmail = Some \<lparr>headers = hs, body = []\<rparr>,
      finalRawEmail = None\<rparr>"

text \<open>
  The header section as the specification words it. The header section is the lines before
  the first blank line. A line beginning with a space or a tab is a continuation. Any other
  line starts a header: it is split at the first colon into trimmed name and trimmed value,
  or, without a colon, gives the trimmed line as name and the empty value; the value of the
  header is then extended, each time by one space and the trimmed text, with the
  continuation lines that follow directly. A continuation line starts nothing.
\<close>

definition headerSection :: "string list \<Rightarrow> string list" where
  "headerSection ls = takeWhile (\<lambda>l. trim l \<noteq> []) ls"

definition splitHeaderLine :: "string \<Rightarrow> string \<times> string" where
  "splitHeaderLine line =
     (case indexOf line (CHR '':'') of
        Some idx \<Rightarrow> (trim (take idx line), trim (drop (idx + 1) line))
      | None \<Rightarrow> (trim line, []))"

definition appendContinuation :: "string \<Rightarrow> string \<Rightarrow> string" where
  "appendContinuation v line = v @ '' '' @ trim line"

fun startedHeaders :: "string list \<Rightarrow> (string \<times> string) list" where
  "startedHeaders [] = []"
| "startedHeaders (l # ls) =
     (if startsWithBlank l then startedHeaders ls
      else (fst (splitHeaderLine l),
            foldl appendContinuation (snd (splitHeaderLine l)) (takeWhile startsWithBlank ls))
           # startedHeaders ls)"

text \<open>The started headers with a name, as headers.\<close>

definition namedHeaders :: "(string \<times> string) list \<Rightarrow> Header list" where
  "namedHeaders nvs = map (\<lambda>nv. mkHeader (fst nv) (snd nv)) (filter (\<lambda>nv. fst nv \<noteq> []) nvs)"

text \<open>A codec for the examples: one byte per character. On ASCII text it is UTF-8.\<close>

definition byteCodec :: TextCodec where
  "byteCodec = \<lparr>decode = map (\<lambda>b. char_of (unat b)), encode = map (\<lambda>c. of_nat (of_char c))\<rparr>"

text \<open>The header that \<open>parseEmail\<close> lists when the section has no continuation line: a
  non-empty trimmed name without colon, a trimmed value, no line feed in either, and the raw
  form made of the two. Serialising and parsing again gives such a header back.\<close>

definition cleanHeader :: "Header \<Rightarrow> bool" where
  "cleanHeader h \<longleftrightarrow>
     hname h \<noteq> [] \<and> trim (hname h) = hname h \<and> CHR '':'' \<notin> set (hname h)
     \<and> CHR 0x0A \<notin> set (hname h) \<and> trim (hvalue h) = hvalue h \<and> CHR 0x0A \<notin> set (hvalue h)
     \<and> hraw h = hname h @ '': '' @ hvalue h"

text \<open>The headers \<open>pushCurrent\<close> adds for the current name and value.\<close>

definition emitHeader :: "string \<Rightarrow> string \<Rightarrow> Header list" where
  "emitHeader n v = (if n \<noteq> [] then [mkHeader n v] else [])"

section \<open>Spam check\<close>

definition blocklist :: "string list" where
  "blocklist = [''spam@example.com'', ''blocked@example.com'']"

text \<open>\<open>/<([^>]+)>/\<close>, \<open>/^(.*)<[^>]+>/\<close> and \<open>/^[A-Za-z0-9]+$/\<close>\<close>

definition emailRegex :: regex where
  "emailRegex = [lit (CHR ''<''), Grp (notChar (CHR ''>'')) Plus, lit (CHR ''>'')]"

definition nameRegex :: regex where
  "nameRegex = [Bol, Grp dot Star, lit (CHR ''<''), Cls (notChar (CHR ''>'')) Plus, lit (CHR ''>'')]"

definition alnumRegex :: regex where
  "alnumRegex = [Bol, Cls isAlnum Plus, Eol]"

definition spamKeywords :: "string list" where
  "spamKeywords =
     [''viagra'', ''prince'', ''winner'', ''quick discussion'', ''intro call'',
      ''exploratory call'', ''domaine expirera'', ''market trends'', ''collaboration'',
      ''website builder'', ''running ads'', ''website error'', ''content error'',
      ''full proposal'', ''cost your business'', ''send you a quote'', ''get a sample'',
      ''market research'', ''confirm your delivery'', ''re: proposal'', ''urgent notice'',
      ''tax discrepancy'']"

text \<open>The sender name of the Gmail branch: \<open>nameMatch ? nameMatch[1].trim() : ''\<close>.\<close>

definition senderNameOf :: "string \<Rightarrow> string" where
  "senderNameOf fromHeader =
     (case regexMatch nameRegex fromHeader of Some [g] \<Rightarrow> trim g | _ \<Rightarrow> [])"

text \<open>
  The Gmail branch; \<open>None\<close> when it falls through to the keyword check. The percentages
  \<open>(count / totalLetters) * 100\<close> are compared with 40 and 60 in exact arithmetic, after
  multiplying through by \<open>totalLetters\<close>.
\<close>

definition gmailCheck :: "string \<Rightarrow> ProcessingResult option" where
  "gmailCheck fromHeader =
     (let senderName = senderNameOf fromHeader
      in if senderName = [] then Some (reject ''Sender name is missing.'')
         else if regexTest alnumRegex senderName then
           (let totalLetters = length (filter isAlpha senderName);
                uppercaseCount = length (filter isUpper senderName);
                lowercaseCount = length (filter isLower senderName)
            in if 8 \<le> totalLetters
                  \<and> 40 * totalLetters \<le> uppercaseCount * 100
                  \<and> uppercaseCount * 100 \<le> 60 * totalLetters
                  \<and> 40 * totalLetters \<le> lowercaseCount * 100
                  \<and> lowercaseCount * 100 \<le> 60 * totalLetters
               then Some (reject ''Sender name resembles spam pattern.'')
               else None)
         else None)"

text \<open>The body of \<open>SpamCheckProcessor.process\<close> on the values of the two headers it reads.\<close>

definition spamCheck :: "string \<Rightarrow> string \<Rightarrow> ProcessingResult" where
  "spamCheck fromHeader subject =
     (let senderEmail = (case regexMatch emailRegex fromHeader of Some [g] \<Rightarrow> g | _ \<Rightarrow> fromHeader);
          senderEmailLower = toLowerCase senderEmail
      in if senderEmailLower \<in> set blocklist then reject ''Sender is blocked.''
         else (case (if endsWith senderEmailLower ''@gmail.com'' then gmailCheck fromHeader else None) of
                 Some r \<Rightarrow> r
               | None \<Rightarrow>
                   if \<exists>keyword \<in> set spamKeywords. includesStr (toLowerCase subject) keyword
                   then reject ''Message contains spam keywords.''
                   else continue))"

definition SpamCheckProcessor_process ::
    "EmailPipelineContext \<Rightarrow> ProcessingResult \<times> EmailPipelineContext" where
  "SpamCheckProcessor_process ctx =
     (spamCheck (orEmpty (msgHeaders (message ctx) ''from''))
                (orEmpty (msgHeaders (message ctx) ''subject'')),
      ctx)"

section \<open>Delivery to the CRM\<close>

text \<open>The part of the \<open>Response\<close> that \<open>validateResponse\<close> reads.\<close>

record Response =
  ok :: bool
  status :: nat
  statusText :: string

text \<open>The decimal numeral of a number, as a template literal renders it.\<close>

fun decimal :: "nat \<Rightarrow> string" where
  "decimal n = (if n < 10 then [char_of (48 + n)] else decimal (n div 10) @ [char_of (48 + n mod 10)])"

declare decimal.simps [simp del]

text \<open>\<open>parseInt(digits, 10)\<close> on a string of decimal digits.\<close>

definition parseInt :: "string \<Rightarrow> nat" where
  "parseInt ds = foldl (\<lambda>n d. 10 * n + (of_char d - 48)) 0 ds"

text \<open>
  \<open>/<name>\s*faultString\s*<\/name>\s*<value>\s*<string>\s*([\s\S]*?)\s*<\/string>/i\<close>,
  \<open>/<int>\s*(\d+)\s*<\/int>/i\<close> and \<open>/<boolean>\s*(\d)\s*<\/boolean>/i\<close>
\<close>

definition faultStringRegex :: regex where
  "faultStringRegex =
     lits_i ''<name>'' @ [Cls isWhiteSpace Star] @ lits_i ''faultString'' @ [Cls isWhiteSpace Star]
     @ lits_i ''</name>'' @ [Cls isWhiteSpace Star] @ lits_i ''<value>'' @ [Cls isWhiteSpace Star]
     @ lits_i ''<string>'' @ [Cls isWhiteSpace Star] @ [Grp anyChar LazyStar]
     @ [Cls isWhiteSpace Star] @ lits_i ''</string>''"

definition intRegex :: regex where
  "intRegex = lits_i ''<int>'' @ [Cls isWhiteSpace Star, Grp isDigit Plus, Cls isWhiteSpace Star]
              @ lits_i ''</int>''"

definition booleanRegex :: regex where
  "booleanRegex = lits_i ''<boolean>'' @ [Cls isWhiteSpace Star, Grp isDigit One, Cls isWhiteSpace Star]
                  @ lits_i ''</boolean>''"

text \<open>\<open>faultStringMatch ? faultStringMatch[1].trim() : 'Unknown fault'\<close>\<close>

definition faultStringOf :: "string \<Rightarrow> string" where
  "faultStringOf data =
     (case regexMatch faultStringRegex data of Some [g] \<Rightarrow> trim g | _ \<Rightarrow> ''Unknown fault'')"

text \<open>
  \<open>validateResponse\<close> returns nothing or throws \<open>new Error(message)\<close>: the result is
  \<open>Inr ()\<close> or \<open>Inl message\<close>. What it writes to the console is left out.
\<close>

definition validateResponse :: "Response \<Rightarrow> string \<Rightarrow> string + unit" where
  "validateResponse response data =
     (if \<not> ok response
      then Inl (''HTTP Error: '' @ decimal (status response) @ '' '' @ statusText response)
      else if includesStr data ''<fault>'' then
        (let faultString = faultStringOf data
         in if includesStr faultString ''ValueError: No possible route found for incoming message''
            then Inl ''Mailbox not found or no valid route. Please check the mail alias or CRM configuration.''
            else Inl (''CRM Error: '' @ faultString))
      else (case regexMatch intRegex data of
              Some [g] \<Rightarrow>
                if 0 < parseInt g then Inr () else Inl ''Invalid record ID received from CRM.''
            | _ \<Rightarrow>
              (case regexMatch booleanRegex data of
                 Some [g] \<Rightarrow> if g = ''0'' then Inl ''Email rejected by CRM.'' else Inr ()
               | _ \<Rightarrow> Inl ''Unexpected response format from CRM.'')))"

text \<open>The classes of the capture groups of a pattern, in order.\<close>

fun groupClasses :: "regex \<Rightarrow> (char \<Rightarrow> bool) list" where
  "groupClasses [] = []"
| "groupClasses (Grp p q # r) = p # groupClasses r"
| "groupClasses (Bol # r) = groupClasses r"
| "groupClasses (Eol # r) = groupClasses r"
| "groupClasses (Cls p q # r) = groupClasses r"

text \<open>
  An integer result in the words of the specification, for comparison with the pattern of
  the code: an \<open>int\<close> element holding a decimal integer, with or without a sign.
  \<open>spec_integerResult\<close> is that integer, when the body has one.
\<close>

definition spec_isSign :: "char \<Rightarrow> bool" where
  "spec_isSign c \<longleftrightarrow> c = CHR ''-'' \<or> c = CHR ''+''"

definition spec_signedIntRegex :: regex where
  "spec_signedIntRegex =
     lits_i ''<int>''
     @ [Cls isWhiteSpace Star, Grp spec_isSign Opt, Grp isDigit Plus,
        Cls isWhiteSpace Star]
     @ lits_i ''</int>''"

definition spec_integerResult :: "string \<Rightarrow> int option" where
  "spec_integerResult data =
     (case regexMatch spec_signedIntRegex data of
        Some [sign, ds] \<Rightarrow> Some (if sign = ''-'' then - int (parseInt ds) else int (parseInt ds))
      | _ \<Rightarrow> None)"

section \<open>Sending the message\<close>

text \<open>\<open>base64ArrayBuffer\<close>: three bytes give four characters of \<open>encodings\<close>; one or two
  remaining bytes give two or three characters and the padding.\<close>

definition encodings :: string where
  "encodings = ''ABCDEFGHIJKLMNOPQRSTUVWXYZabcdefghijklmnopqrstuvwxyz0123456789+/''"

text \<open>\<open>encodings[x]\<close>; every index the function forms is below 64.\<close>

definition encoding :: "byte \<Rightarrow> char" where
  "encoding x = encodings ! unat x"

fun base64ArrayBuffer :: "byte list \<Rightarrow> string" where
  "base64ArrayBuffer [] = []"
| "base64ArrayBuffer [a] =
     [encoding (drop_bit 2 a), encoding (push_bit 4 (a AND 3))] @ ''==''"
| "base64ArrayBuffer [a, b] =
     [encoding (drop_bit 2 a), encoding (push_bit 4 (a AND 3) OR drop_bit 4 b),
      encoding (push_bit 2 (b AND 15))] @ ''=''"
| "base64ArrayBuffer (a # b # c # bytes) =
     [encoding (drop_bit 2 a), encoding (push_bit 4 (a AND 3) OR drop_bit 4 b),
      encoding (push_bit 2 (b AND 15) OR drop_bit 6 c), encoding (c AND 63)]
     @ base64ArrayBuffer bytes"

text \<open>The connection options of \<open>CrmServerHandler\<close>.\<close>

record CrmOptions =
  database :: string
  userid :: string
  password :: string
  host :: string
  port :: string
  protocol :: string

text \<open>\<open>x || d\<close> for an optional string: the default also replaces the empty string.\<close>

definition orDefault :: "string option \<Rightarrow> string \<Rightarrow> string" where
  "orDefault x d = (case x of None \<Rightarrow> d | Some s \<Rightarrow> if s = [] then d else s)"

definition crmOptions :: "Env \<Rightarrow> CrmOptions" where
  "crmOptions e =
     \<lparr>database = orDefault (ODOO_DATABASE e) ''company'',
      userid = orDefault (ODOO_USERID e) ''2'',
      password = orDefault (ODOO_PASSWORD e) ''password'',
      host = orDefault (ODOO_HOST e) ''crm.example.com'',
      port = orDefault (ODOO_PORT e) ''443'',
      protocol = orDefault (ODOO_PROTOCOL e) ''https''\<rparr>"

definition requestUrl :: "CrmOptions \<Rightarrow> string" where
  "requestUrl opts = protocol opts @ ''://'' @ host opts @ '':'' @ port opts @ ''/xmlrpc/2/object''"

text \<open>The request body: the lines of the template, joined by line feeds.\<close>

definition requestXml :: "CrmOptions \<Rightarrow> byte list \<Rightarrow> string" where
  "requestXml opts rawBytes =
     joinWith [CHR 0x0A]
       [[CHR ''<'', CHR ''?''] @ ''xml version='' @ [CHR 0x22] @ ''1.0'' @ [CHR 0x22, CHR ''?'', CHR ''>''],
        ''<methodCall>'',
        ''  <methodName>execute_kw</methodName>'',
        ''  <params>'',
        ''    <param><value><string>'' @ database opts @ ''</string></value></param>'',
        ''    <param><value><int>'' @ userid opts @ ''</int></value></param>'',
        ''    <param><value><string>'' @ password opts @ ''</string></value></param>'',
        ''    <param><value><string>mail.thread</string></value></param>'',
        ''    <param><value><string>message_process</string></value></param>'',
        ''    <param>'',
        ''      <value>'',
        ''        <array>'',
        ''          <data>'',
        ''            <value><boolean>0</boolean></value>'',
        ''            <value><base64>'' @ base64ArrayBuffer rawBytes @ ''</base64></value>'',
        ''          </data>'',
        ''        </array>'',
        ''      </value>'',
        ''    </param>'',
        ''    <param><value><struct></struct></value></param>'',
        ''  </params>'',
        ''</methodCall>'']"

text \<open>
  The platform: the text codec and \<open>fetch\<close>. A call of \<open>fetch\<close> with a URL and a body
  either fails with the message of the error it throws, or gives the response and the text
  of its body.
\<close>

record Platform =
  textCodec :: TextCodec
  fetch :: "string \<Rightarrow> string \<Rightarrow> string + Response \<times> string"

text \<open>\<open>sendEmail\<close>: whatever is thrown inside the \<open>try\<close> is thrown again with a prefix.\<close>

definition sendEmail :: "Platform \<Rightarrow> CrmOptions \<Rightarrow> byte list \<Rightarrow> string + unit" where
  "sendEmail pf opts rawBytes =
     (case (case fetch pf (requestUrl opts) (requestXml opts rawBytes) of
              Inl msg \<Rightarrow> Inl msg
            | Inr (response, data) \<Rightarrow> validateResponse response data) of
        Inl msg \<Rightarrow> Inl (''Unable to communicate with CRM server: '' @ msg)
      | Inr u \<Rightarrow> Inr u)"

section \<open>The remaining processors\<close>

definition ParsingProcessor_process ::
    "Platform \<Rightarrow> EmailPipelineContext \<Rightarrow> ProcessingResult \<times> EmailPipelineContext" where
  "ParsingProcessor_process pf ctx =
     (case streamToArrayBuffer (raw (message ctx)) (rawSize (message ctx)) of
        Inl error \<Rightarrow> (reject ''Unable to process email data.'', ctx)
      | Inr bytes \<Rightarrow>
          (continue, ctx\<lparr>rawEmail := Some bytes, parsedEmail := Some (parseEmail (textCodec pf) bytes)\<rparr>))"

definition PreDeliveryProcessor_process ::
    "Platform \<Rightarrow> EmailPipelineContext \<Rightarrow> ProcessingResult \<times> EmailPipelineContext" where
  "PreDeliveryProcessor_process pf ctx =
     (case parsedEmail ctx of
        None \<Rightarrow> (reject ''No parsed email to deliver.'', ctx)
      | Some pe \<Rightarrow>
          (continue, ctx\<lparr>finalRawEmail := Some (reSerialiseEmail (textCodec pf) (headers pe) (body pe))\<rparr>))"

definition DeliveryProcessor_process ::
    "Platform \<Rightarrow> EmailPipelineContext \<Rightarrow> ProcessingResult \<times> EmailPipelineContext" where
  "DeliveryProcessor_process pf ctx =
     (case finalRawEmail ctx of
        None \<Rightarrow> (reject ''No final email data to deliver.'', ctx)
      | Some bytes \<Rightarrow>
          (case sendEmail pf (crmOptions (env ctx)) bytes of
             Inl msg \<Rightarrow> (reject (''Unable to deliver to CRM. '' @ msg), ctx)
           | Inr u \<Rightarrow> (continue, ctx)))"

section \<open>The pipeline runner\<close>

text \<open>
  A call of \<open>processor.process()\<close> may change the shared context and then either returns
  a result or throws. A processor is its constructor name and its \<open>process\<close>.
\<close>

datatype 'a completion = Returned 'a | Threw exn

record Processor =
  constructorName :: string
  process :: "EmailPipelineContext \<Rightarrow> ProcessingResult completion \<times> EmailPipelineContext"

text \<open>
  What the handler leaves behind: the context, with the reason given to \<open>setReject\<close> in
  its message; the lines the handler itself wrote to the console; and, as bookkeeping of
  the model, the constructor names of the processors whose \<open>process\<close> was called, in the
  order of the calls. The handler returns early (\<open>Rejected\<close>) or runs to its end
  (\<open>Completed\<close>).
\<close>

datatype logEntry = ConsoleWarn string | ConsoleError string exn | ConsoleLog string

record Run =
  runContext :: EmailPipelineContext
  console :: "logEntry list"
  invoked :: "string list"

datatype verdict = Rejected string | Completed

definition setReject :: "EmailPipelineContext \<Rightarrow> string \<Rightarrow> EmailPipelineContext" where
  "setReject ctx reason = ctx\<lparr>message := (message ctx)\<lparr>rejectedWith := Some reason\<rparr>\<rparr>"

text \<open>\<open>constructorRef.name || 'Unknown'\<close>\<close>

definition nameOf :: "Processor \<Rightarrow> string" where
  "nameOf p = (if constructorName p = [] then ''Unknown'' else constructorName p)"

text \<open>The loop \<open>for (const processor of processors)\<close> with its \<open>try\<close> and \<open>catch\<close>.\<close>

fun processorLoop :: "Processor list \<Rightarrow> Run \<Rightarrow> verdict \<times> Run" where
  "processorLoop [] run = (Completed, run)"
| "processorLoop (p # ps) run =
     (case process p (runContext run) of
        (Returned result, ctx') \<Rightarrow>
          if \<not> canContinue result
          then (Rejected (orDefault (rejectReason result) ''Message rejected by processor.''),
                run\<lparr>runContext :=
                      setReject ctx' (orDefault (rejectReason result) ''Message rejected by processor.''),
                    console := console run
                      @ [ConsoleWarn (''Email rejected by '' @ nameOf p @ '': ''
                                      @ orDefault (rejectReason result) ''No reason'')],
                    invoked := invoked run @ [constructorName p]\<rparr>)
          else processorLoop ps (run\<lparr>runContext := ctx',
                                      invoked := invoked run @ [constructorName p]\<rparr>)
      | (Threw err, ctx') \<Rightarrow>
          processorLoop ps (run\<lparr>runContext := ctx',
                                 console := console run @ [ConsoleError (''Error in '' @ nameOf p) err],
                                 invoked := invoked run @ [constructorName p]\<rparr>))"

text \<open>The six processors of the handler never throw: each returns its result.\<close>

definition returning ::
    "(EmailPipelineContext \<Rightarrow> ProcessingResult \<times> EmailPipelineContext)
     \<Rightarrow> EmailPipelineContext \<Rightarrow> ProcessingResult completion \<times> EmailPipelineContext" where
  "returning f ctx = (case f ctx of (result, ctx') \<Rightarrow> (Returned result, ctx'))"

definition processors :: "Platform \<Rightarrow> Processor list" where
  "processors pf =
     [\<lparr>constructorName = ''SpamCheckProcessor'', process = returning SpamCheckProcessor_process\<rparr>,
      \<lparr>constructorName = ''ParsingProcessor'', process = returning (ParsingProcessor_process pf)\<rparr>,
      \<lparr>constructorName = ''DomainCollapseProcessor'', process = returning DomainCollapseProcessor_process\<rparr>,
      \<lparr>constructorName = ''SubaddressingProcessor'', process = returning SubaddressingProcessor_process\<rparr>,
      \<lparr>constructorName = ''PreDeliveryProcessor'', process = returning (PreDeliveryProcessor_process pf)\<rparr>,
      \<lparr>constructorName = ''DeliveryProcessor'', process = returning (DeliveryProcessor_process pf)\<rparr>]"

definition email :: "Platform \<Rightarrow> Message \<Rightarrow> Env \<Rightarrow> Run" where
  "email pf msg e =
     (case processorLoop (processors pf)
             \<lparr>runContext = \<lparr>message = msg, env = e, rawEmail = None, parsedEmail = None,
                            finalRawEmail = None\<rparr>,
              console = [], invoked = []\<rparr> of
        (Rejected reason, run) \<Rightarrow> run
      | (Completed, run) \<Rightarrow>
          run\<lparr>console := console run
                 @ [ConsoleLog ''Email processed successfully through all processors.'']\<rparr>)"

text \<open>A processor that returns \<open>continue\<close> where the given one throws, and is the given one
  otherwise.\<close>

definition asContinue :: "Processor \<Rightarrow> Processor" where
  "asContinue p =
     p\<lparr>process := (\<lambda>c. case process p c of
                            (Threw err, c') \<Rightarrow> (Returned continue, c')
                          | (Returned result, c') \<Rightarrow> (Returned result, c'))\<rparr>"

section \<open>Example inputs\<close>

text \<open>An inbound message with the given From and Subject values and raw stream; a platform
  whose CRM answers every request with the given response; and four processors that are
  not the handler's: one changes the context and throws, one rejects with a reason of its
  own, one of a class without a name rejects without a reason, one changes the context and
  continues.\<close>

definition inboundMessage ::
    "string option \<Rightarrow> string option \<Rightarrow> byte list list \<Rightarrow> nat \<Rightarrow> Message" where
  "inboundMessage from subject chunks n =
     \<lparr>msgHeaders = (\<lambda>name. if name = ''from'' then from
                            else if name = ''subject'' then subject else None),
      raw = chunks, rawSize = n, rejectedWith = None\<rparr>"

definition noEnv :: Env where
  "noEnv = \<lparr>ODOO_DATABASE = None, ODOO_USERID = None, ODOO_PASSWORD = None,
            ODOO_HOST = None, ODOO_PORT = None, ODOO_PROTOCOL = None,
            DOMAIN_COLLAPSE_MAPPING = None\<rparr>"

definition answeringPlatform :: "Response \<Rightarrow> string \<Rightarrow> Platform" where
  "answeringPlatform response data =
     \<lparr>textCodec = byteCodec, fetch = (\<lambda>url body. Inr (response, data))\<rparr>"

definition initialRun :: "Message \<Rightarrow> Env \<Rightarrow> Run" where
  "initialRun msg e =
     \<lparr>runContext = \<lparr>message = msg, env = e, rawEmail = None, parsedEmail = None,
                    finalRawEmail = None\<rparr>,
      console = [], invoked = []\<rparr>"

definition faultyProcessor :: Processor where
  "faultyProcessor =
     \<lparr>constructorName = ''Faulty'',
      process = (\<lambda>c. (Threw (Error ''boom''), c\<lparr>rawEmail := Some []\<rparr>))\<rparr>"

definition strictProcessor :: Processor where
  "strictProcessor =
     \<lparr>constructorName = ''Strict'',
      process = (\<lambda>c. (Returned \<lparr>canContinue = False, rejectReason = Some ''No entry.''\<rparr>, c))\<rparr>"

definition silentProcessor :: Processor where
  "silentProcessor =
     \<lparr>constructorName = [],
      process = (\<lambda>c. (Returned \<lparr>canContinue = False, rejectReason = None\<rparr>, c))\<rparr>"

definition lateProcessor :: Processor where
  "lateProcessor =
     \<lparr>constructorName = ''Late'',
      process = (\<lambda>c. (Returned continue, c\<lparr>finalRawEmail := Some []\<rparr>))\<rparr>"

section \<open>Properties of subaddressing\<close>

lemma subaddressAddress_no_match:
  "\<not> matchesSubaddress a \<Longrightarrow> subaddressAddress tag a = (tag, a)"
  by (cases "parseAddress a") (simp add: matchesSubaddress_def subaddressAddress_def)

lemma mapAccum_subaddressAddress_no_match:
  "\<forall>a \<in> set parts. \<not> matchesSubaddress a \<Longrightarrow> mapAccum subaddressAddress tag parts = (tag, parts)"
  by (induction parts) (simp_all add: subaddressAddress_no_match)

lemma subaddressHeader_stripped:
  assumes "toLowerCase (hname h) = ''to'' \<longrightarrow>
             strippedValue (hvalue h) \<and> hraw h = hname h @ '': '' @ hvalue h"
  shows "subaddressHeader tag h = (tag, h)"
proof (cases "toLowerCase (hname h) = ''to''")
  case True
  with assms have sv: "strippedValue (hvalue h)" and r: "hraw h = hname h @ '': '' @ hvalue h"
    by simp_all
  from sv have m: "mapAccum subaddressAddress tag (splitAddresses (hvalue h))
                   = (tag, splitAddresses (hvalue h))"
    by (simp add: strippedValue_def mapAccum_subaddressAddress_no_match)
  from sv have j: "joinWith '', '' (splitAddresses (hvalue h)) = hvalue h"
    by (simp add: strippedValue_def)
  show ?thesis
    using True r by (simp add: subaddressHeader_def m j)
next
  case False
  then show ?thesis by (simp add: subaddressHeader_def)
qed

lemma mapAccum_subaddressHeader_stripped:
  "\<forall>h \<in> set hs. toLowerCase (hname h) = ''to'' \<longrightarrow>
      strippedValue (hvalue h) \<and> hraw h = hname h @ '': '' @ hvalue h
   \<Longrightarrow> mapAccum subaddressHeader tag hs = (tag, hs)"
  by (induction hs) (simp_all add: subaddressHeader_stripped)

lemma subaddressHeader_raw:
  "subaddressHeader tag h = (tag', h') \<Longrightarrow> toLowerCase (hname h') = ''to''
   \<Longrightarrow> hraw h' = hname h' @ '': '' @ hvalue h'"
  by (auto simp: subaddressHeader_def Let_def split: if_splits prod.splits)

lemma mapAccum_subaddressHeader_raw:
  "h' \<in> set (snd (mapAccum subaddressHeader tag hs)) \<Longrightarrow> toLowerCase (hname h') = ''to''
   \<Longrightarrow> hraw h' = hname h' @ '': '' @ hvalue h'"
proof (induction hs arbitrary: tag)
  case Nil
  then show ?case by simp
next
  case (Cons h hs)
  obtain t1 h1 where s: "subaddressHeader tag h = (t1, h1)"
    by (cases "subaddressHeader tag h")
  obtain t2 hs2 where r: "mapAccum subaddressHeader t1 hs = (t2, hs2)"
    by (cases "mapAccum subaddressHeader t1 hs")
  from Cons.prems(1) s r have "h' = h1 \<or> h' \<in> set hs2" by simp
  then show ?case
  proof
    assume "h' = h1"
    with s Cons.prems(2) show ?thesis by (simp add: subaddressHeader_raw)
  next
    assume "h' \<in> set hs2"
    with r have "h' \<in> set (snd (mapAccum subaddressHeader t1 hs))" by simp
    with Cons.IH Cons.prems(2) show ?thesis by blast
  qed
qed

text \<open>
  Claim C3. The claim is that only the first header named To is rewritten and every later
  To header keeps its name, value and raw form. \<open>processSubaddressing\<close> maps over all
  headers and rewrites each one whose lower-cased name is \<open>to\<close>; only the captured tag is
  taken from the first match. On two To headers, the second holding
  \<open>b+tag@y.test\<close>, the second header comes back as \<open>b@y.test\<close>.
\<close>

theorem processSubaddressing_rewrites_later_To:
  "processSubaddressing [mkHeader ''To'' ''a@x.test'', mkHeader ''To'' ''b+tag@y.test'']
   = (''tag'', [mkHeader ''To'' ''a@x.test'', mkHeader ''To'' ''b@y.test''])"
  by code_simp

text \<open>
  Claim C8, as stated: a second application to the output of a first one changes no header
  and captures no tag. It fails: the domain part of \<open>plusRegex\<close> may itself hold
  \<open>+\<dots>@\<close>, so the mailbox \<open>a+b@c+d@e\<close> becomes \<open>a@c+d@e\<close>, which matches again; the
  second application rewrites it to \<open>a@c@e\<close> and captures the tag \<open>d\<close>. Without any
  tag, too, a second application can change a value: an empty address before the end is
  kept by the first join and lost by the second split.
\<close>

theorem processSubaddressing_second_run_changes:
  "processSubaddressing [mkHeader ''To'' ''a+b@c+d@e''] = (''b'', [mkHeader ''To'' ''a@c+d@e''])
   \<and> processSubaddressing [mkHeader ''To'' ''a@c+d@e''] = (''d'', [mkHeader ''To'' ''a@c@e''])
   \<and> processSubaddressing (snd (processSubaddressing [mkHeader ''To'' ''a+b@c+d@e'']))
       \<noteq> ([], snd (processSubaddressing [mkHeader ''To'' ''a+b@c+d@e'']))
   \<and> processSubaddressing [mkHeader ''To'' ''a@b.test, ,''] = ([], [mkHeader ''To'' ''a@b.test, ''])
   \<and> processSubaddressing [mkHeader ''To'' ''a@b.test, ''] = ([], [mkHeader ''To'' ''a@b.test''])"
  by code_simp

text \<open>
  Claim C8, amended: a second application to the output of a first one changes no header
  and captures no tag whenever, in that output, the value of every header named To is the
  \<open>, \<close>-join of its own addresses and none of these addresses has a mailbox of the form
  \<open>local+tag@domain\<close>.
\<close>

theorem processSubaddressing_second_run:
  assumes "\<forall>h \<in> set (snd (processSubaddressing hs)).
             toLowerCase (hname h) = ''to'' \<longrightarrow> strippedValue (hvalue h)"
  shows "processSubaddressing (snd (processSubaddressing hs))
         = ([], snd (processSubaddressing hs))"
proof -
  have "\<forall>h \<in> set (snd (processSubaddressing hs)). toLowerCase (hname h) = ''to'' \<longrightarrow>
          strippedValue (hvalue h) \<and> hraw h = hname h @ '': '' @ hvalue h"
    using assms mapAccum_subaddressHeader_raw unfolding processSubaddressing_def by blast
  then show ?thesis
    unfolding processSubaddressing_def [of "snd _"] by (rule mapAccum_subaddressHeader_stripped)
qed

theorem processSubaddressing_second_run_witness:
  \<open>snd (processSubaddressing
        [mkHeader ''To'' ''Bob <bob+news@example.com>,carol@example.com'',
         mkHeader ''Subject'' ''Hello''])
     = [mkHeader ''To'' ''"Bob" <bob@example.com>, carol@example.com'',
        mkHeader ''Subject'' ''Hello'']
   \<and> strippedValue ''"Bob" <bob@example.com>, carol@example.com''
   \<and> processSubaddressing
        [mkHeader ''To'' ''"Bob" <bob@example.com>, carol@example.com'',
         mkHeader ''Subject'' ''Hello'']
     = ([], [mkHeader ''To'' ''"Bob" <bob@example.com>, carol@example.com'',
             mkHeader ''Subject'' ''Hello''])\<close>
proof -
  let ?hs = "[mkHeader ''To'' ''Bob <bob+news@example.com>,carol@example.com'',
              mkHeader ''Subject'' ''Hello'']"
  have out: \<open>snd (processSubaddressing ?hs)
     = [mkHeader ''To'' ''"Bob" <bob@example.com>, carol@example.com'',
        mkHeader ''Subject'' ''Hello'']\<close>
    by code_simp
  have sv: \<open>strippedValue ''"Bob" <bob@example.com>, carol@example.com''\<close>
    by code_simp
  have h: "\<forall>h \<in> set (snd (processSubaddressing ?hs)).
             toLowerCase (hname h) = ''to'' \<longrightarrow> strippedValue (hvalue h)"
  proof -
    have ns: "toLowerCase ''Subject'' \<noteq> ''to''" by code_simp
    show ?thesis unfolding out using sv ns by (simp add: mkHeader_def)
  qed
  from processSubaddressing_second_run [OF h] out sv show ?thesis by simp
qed

section \<open>Properties of the stream reader\<close>

lemma readLoop_result:
  "bytesRead \<le> length result \<Longrightarrow>
   readLoop chunks result bytesRead =
     (if bytesRead + sum_list (map length chunks) \<le> length result
      then Inr (take bytesRead result @ concat chunks
                @ drop (bytesRead + sum_list (map length chunks)) result)
      else Inl RangeError)"
proof (induction chunks arbitrary: result bytesRead)
  case Nil
  then show ?case by simp
next
  case (Cons v chunks)
  show ?case
  proof (cases "length result < bytesRead + length v")
    case True
    then show ?thesis by simp
  next
    case False
    let ?r = "take bytesRead result @ v @ drop (bytesRead + length v) result"
    from False Cons.prems have len: "length ?r = length result" by simp
    from False have le: "bytesRead + length v \<le> length ?r" using len by simp
    have tk: "take (bytesRead + length v) ?r = take bytesRead result @ v"
      using Cons.prems False by simp
    have dr: "\<And>n. drop (bytesRead + length v + n) ?r = drop (bytesRead + length v + n) result"
      using Cons.prems False by (simp add: add.commute add.left_commute)
    show ?thesis
      using False Cons.IH [OF le] len tk dr by (simp add: add.assoc)
  qed
qed

text \<open>
  Claim C10. When the chunks hold no more bytes than the declared size, the result is the
  bytes of the stream followed by zero bytes up to the declared size; when they hold more,
  the call throws a \<open>RangeError\<close>; and whenever a buffer is returned its length is the
  declared size.
\<close>

theorem streamToArrayBuffer_length:
  "(sum_list (map length stream) \<le> streamSize \<longrightarrow>
      streamToArrayBuffer stream streamSize
      = Inr (concat stream @ replicate (streamSize - sum_list (map length stream)) 0))
   \<and> (streamSize < sum_list (map length stream) \<longrightarrow>
      streamToArrayBuffer stream streamSize = Inl RangeError)
   \<and> (\<forall>buf. streamToArrayBuffer stream streamSize = Inr buf \<longrightarrow> length buf = streamSize)"
  by (auto simp: streamToArrayBuffer_def readLoop_result length_concat split: if_splits)

theorem streamToArrayBuffer_length_witness:
  "sum_list (map length [[1, 2], [3 :: byte]]) \<le> 5
   \<and> streamToArrayBuffer [[1, 2], [3]] 5 = Inr [1, 2, 3, 0, 0]
   \<and> 2 < sum_list (map length [[1, 2], [3 :: byte]])
   \<and> streamToArrayBuffer [[1, 2], [3]] 2 = Inl RangeError"
  using streamToArrayBuffer_length [of "[[1, 2], [3]]" 5]
        streamToArrayBuffer_length [of "[[1, 2], [3]]" 2]
  by (simp add: numeral_eq_Suc)

section \<open>Properties of domain collapse\<close>

lemma lowerChar_idem:
  "lowerChar (lowerChar c) = lowerChar c"
proof -
  have m: "\<And>n::nat. n + 32 < 256 \<Longrightarrow> (of_char (char_of (n + 32)) :: nat) = n + 32"
    by simp
  have b: "(of_char c :: nat) < 256" by simp
  show ?thesis
    unfolding lowerChar_def Let_def using m [of "of_char c"] b
    by (auto simp del: of_char_of)
qed

lemma toLowerCase_idem: "toLowerCase (toLowerCase s) = toLowerCase s"
  by (simp add: toLowerCase_def lowerChar_idem)

lemma indexOf_None: "indexOf e c = None \<longleftrightarrow> c \<notin> set e"
  by (simp add: indexOf_def)

lemma ownSet_keys: "fst ` set (ownSet m k v) = insert k (fst ` set m)"
  by (induction m k v rule: ownSet.induct) auto

lemma objectSet_keys: "fst ` set (objectSet m k v) \<subseteq> insert k (fst ` set m)"
  by (auto simp: objectSet_def ownSet_keys)

lemma addEntries_keys:
  "k \<in> fst ` set (addEntries es m) \<Longrightarrow>
   k \<in> fst ` set m \<or> (\<exists>e \<in> set es. \<exists>i. indexOf e (CHR ''='') = Some i \<and> k = toLowerCase (trim (take i e)))"
proof (induction es arbitrary: m)
  case Nil
  then show ?case by simp
next
  case (Cons e es)
  show ?case
  proof (cases "indexOf e (CHR ''='')")
    case None
    with Cons show ?thesis by fastforce
  next
    case (Some i)
    let ?d = "toLowerCase (trim (take i e))" and ?t = "trim (drop (i + 1) e)"
    show ?thesis
    proof (cases "?d \<noteq> [] \<and> ?t \<noteq> []")
      case True
      with Some Cons.prems have "k \<in> fst ` set (addEntries es (objectSet m ?d ?t))"
        by (simp add: Let_def)
      from Cons.IH [OF this] show ?thesis
      proof
        assume "k \<in> fst ` set (objectSet m ?d ?t)"
        with objectSet_keys have "k = ?d \<or> k \<in> fst ` set m" by blast
        with Some show ?thesis by auto
      next
        assume "\<exists>e \<in> set es. \<exists>i. indexOf e (CHR ''='') = Some i \<and> k = toLowerCase (trim (take i e))"
        then show ?thesis by auto
      qed
    next
      case False
      with Some Cons.prems have "k \<in> fst ` set (addEntries es m)"
        by (auto simp: Let_def)
      from Cons.IH [OF this] show ?thesis by auto
    qed
  qed
qed

lemma addEntries_filter:
  "addEntries es m = addEntries (filter (\<lambda>e. CHR ''='' \<in> set e) es) m"
proof (induction es arbitrary: m)
  case Nil
  then show ?case by simp
next
  case (Cons e es)
  show ?case
  proof (cases "CHR ''='' \<in> set e")
    case True
    then obtain i where "indexOf e (CHR ''='') = Some i" by (auto simp: indexOf_def)
    with True Cons.IH show ?thesis by (simp add: Let_def)
  next
    case False
    then have "indexOf e (CHR ''='') = None" by (simp add: indexOf_def)
    with False Cons.IH show ?thesis by simp
  qed
qed

lemma configEntries_empty: "configEntries [] = []"
  by (simp add: configEntries_def trim_def)

lemma DomainCollapse_noop:
  assumes "\<forall>e \<in> set (configEntries (orEmpty (DOMAIN_COLLAPSE_MAPPING (env ctx)))). CHR ''='' \<notin> set e"
  shows "DomainCollapseProcessor_process ctx = (continue, ctx)"
proof -
  let ?s = "orEmpty (DOMAIN_COLLAPSE_MAPPING (env ctx))"
  from assms have "filter (\<lambda>e. CHR ''='' \<in> set e) (configEntries ?s) = []"
    by (simp add: filter_empty_conv)
  then have "parseDomainCollapseMap ?s = []"
    unfolding parseDomainCollapseMap_def by (subst addEntries_filter) simp
  then show ?thesis
    by (simp add: DomainCollapseProcessor_process_def Let_def split: option.splits)
qed

text \<open>
  Claim C9. Every key of the parsed map is lower-case and is the lower-cased, trimmed text
  before the first \<open>=\<close> of some entry of the configuration string; the map is built from
  the entries that contain \<open>=\<close> alone, the others are skipped; and when the configuration
  string is empty, or none of its entries contains \<open>=\<close>, the stage returns \<open>continue\<close>
  and leaves the context, with the parsed message in it, as it was.
\<close>

theorem domainCollapse_config:
  "(\<forall>k \<in> fst ` set (parseDomainCollapseMap str).
      toLowerCase k = k
      \<and> (\<exists>e \<in> set (configEntries str). \<exists>i. indexOf e (CHR ''='') = Some i
             \<and> k = toLowerCase (trim (take i e))))
   \<and> parseDomainCollapseMap str
       = addEntries (filter (\<lambda>e. CHR ''='' \<in> set e) (configEntries str)) []
   \<and> ((orEmpty (DOMAIN_COLLAPSE_MAPPING (env ctx)) = []
        \<or> (\<forall>e \<in> set (configEntries (orEmpty (DOMAIN_COLLAPSE_MAPPING (env ctx)))).
              CHR ''='' \<notin> set e))
       \<longrightarrow> DomainCollapseProcessor_process ctx = (continue, ctx))"
proof (intro conjI ballI impI)
  fix k assume k: "k \<in> fst ` set (parseDomainCollapseMap str)"
  then have e: "\<exists>e \<in> set (configEntries str). \<exists>i. indexOf e (CHR ''='') = Some i
             \<and> k = toLowerCase (trim (take i e))"
    unfolding parseDomainCollapseMap_def using addEntries_keys [of k "configEntries str" "[]"] by simp
  then show "toLowerCase k = k" by (auto simp: toLowerCase_idem)
  from e show "\<exists>e \<in> set (configEntries str). \<exists>i. indexOf e (CHR ''='') = Some i
             \<and> k = toLowerCase (trim (take i e))" .
next
  show "parseDomainCollapseMap str
       = addEntries (filter (\<lambda>e. CHR ''='' \<in> set e) (configEntries str)) []"
    unfolding parseDomainCollapseMap_def by (rule addEntries_filter)
next
  assume "orEmpty (DOMAIN_COLLAPSE_MAPPING (env ctx)) = []
        \<or> (\<forall>e \<in> set (configEntries (orEmpty (DOMAIN_COLLAPSE_MAPPING (env ctx)))).
              CHR ''='' \<notin> set e)"
  then have "\<forall>e \<in> set (configEntries (orEmpty (DOMAIN_COLLAPSE_MAPPING (env ctx)))). CHR ''='' \<notin> set e"
    by (auto simp: configEntries_empty)
  then show "DomainCollapseProcessor_process ctx = (continue, ctx)" by (rule DomainCollapse_noop)
qed

theorem domainCollapse_config_witness:
  "parseDomainCollapseMap ''Example.ORG = sales@target.test; broken''
     = [(''example.org'', ''sales@target.test'')]
   \<and> configEntries ''broken; also broken,'' = [''broken'', ''also broken'']
   \<and> DomainCollapseProcessor_process
        (parsedContext (Some ''broken; also broken,'') [mkHeader ''To'' ''alice@example.org''])
      = (continue, parsedContext (Some ''broken; also broken,'') [mkHeader ''To'' ''alice@example.org''])"
proof -
  let ?ctx = "parsedContext (Some ''broken; also broken,'') [mkHeader ''To'' ''alice@example.org'']"
  have m: "parseDomainCollapseMap ''Example.ORG = sales@target.test; broken''
     = [(''example.org'', ''sales@target.test'')]"
    by code_simp
  have ce: "configEntries ''broken; also broken,'' = [''broken'', ''also broken'']"
    by code_simp
  have h: "\<forall>e \<in> set (configEntries (orEmpty (DOMAIN_COLLAPSE_MAPPING (env ?ctx)))). CHR ''='' \<notin> set e"
    by (simp add: parsedContext_def orEmpty_def ce)
  from domainCollapse_config [of "''Example.ORG = sales@target.test; broken''" ?ctx] h
  have "DomainCollapseProcessor_process ?ctx = (continue, ?ctx)" by blast
  with m ce show ?thesis by simp
qed

lemma trim_empty: "trim s = [] \<longleftrightarrow> (\<forall>c \<in> set s. isWhiteSpace c)"
proof
  assume "trim s = []"
  then have "dropWhile isWhiteSpace (rev (dropWhile isWhiteSpace s)) = []"
    by (simp add: trim_def)
  then have all: "\<forall>c \<in> set (dropWhile isWhiteSpace s). isWhiteSpace c"
    by (simp add: dropWhile_eq_Nil_conv)
  have "dropWhile isWhiteSpace s = []"
  proof (rule ccontr)
    assume ne: "dropWhile isWhiteSpace s \<noteq> []"
    then have "\<not> isWhiteSpace (hd (dropWhile isWhiteSpace s))" by (rule hd_dropWhile)
    moreover from ne have "hd (dropWhile isWhiteSpace s) \<in> set (dropWhile isWhiteSpace s)"
      by (rule hd_in_set)
    ultimately show False using all by blast
  qed
  then show "\<forall>c \<in> set s. isWhiteSpace c" by (simp only: dropWhile_eq_Nil_conv)
next
  assume "\<forall>c \<in> set s. isWhiteSpace c"
  then have d: "dropWhile isWhiteSpace s = []" by (simp only: dropWhile_eq_Nil_conv)
  show "trim s = []" unfolding trim_def d by simp
qed

lemma splitRuns_no_separator:
  "\<forall>c \<in> set s. \<not> sep c \<Longrightarrow> splitRuns sep s = [s]"
  by (induction s) simp_all

lemma whitespace_not_separator: "isWhiteSpace c \<Longrightarrow> \<not> isSeparator c"
  unfolding isWhiteSpace_def isSeparator_def by (elim disjE) simp_all

lemma parseDomainCollapseMap_blank:
  assumes "trim s = []"
  shows "parseDomainCollapseMap s = []"
proof -
  from assms have "\<forall>c \<in> set s. \<not> isSeparator c"
    using whitespace_not_separator by (simp only: trim_empty) blast
  then have "splitRuns isSeparator s = [s]" by (rule splitRuns_no_separator)
  with assms show ?thesis by (simp add: parseDomainCollapseMap_def configEntries_def)
qed

lemma objectGet_own: "map_of m k = Some t \<Longrightarrow> objectGet m k = Some t"
  by (simp add: objectGet_def)

lemma collapseAddress_key:
  "map_of m (toLowerCase (domainPartOf (snd (parseAddress a)))) = Some target
   \<Longrightarrow> collapseAddress m a = formatAddress (fst (parseAddress a)) target"
  by (cases "parseAddress a") (simp add: collapseAddress_def Let_def objectGet_own)

text \<open>
  Claim C5, as stated, takes the mailbox domain to be the text after the first \<open>@\<close>. The
  stage looks up the second piece of the split at every \<open>@\<close>: with the configured key
  \<open>b@c\<close> and the mailbox \<open>a@b@c\<close> the text after the first \<open>@\<close> is the key, the
  claim would have the mailbox replaced by \<open>x@target.test\<close>, and the stage leaves the
  header as it was.
\<close>

theorem domainCollapse_domain_counterexample:
  "parseDomainCollapseMap ''b@c=x@target.test'' = [(''b@c'', ''x@target.test'')]
   \<and> splitAddresses ''a@b@c'' = [''a@b@c'']
   \<and> parseAddress ''a@b@c'' = ([], ''a@b@c'')
   \<and> toLowerCase (domainAfterFirstAt ''a@b@c'') = ''b@c''
   \<and> formatAddress [] ''x@target.test'' = ''x@target.test''
   \<and> collapseAddress [(''b@c'', ''x@target.test'')] ''a@b@c'' = ''a@b@c''
   \<and> DomainCollapseProcessor_process
        (parsedContext (Some ''b@c=x@target.test'') [mkHeader ''To'' ''a@b@c''])
      = (continue, parsedContext (Some ''b@c=x@target.test'') [mkHeader ''To'' ''a@b@c''])"
proof -
  have m: "parseDomainCollapseMap ''b@c=x@target.test'' = [(''b@c'', ''x@target.test'')]" by code_simp
  have sp: "splitAddresses ''a@b@c'' = [''a@b@c'']" by code_simp
  have pa: "parseAddress ''a@b@c'' = ([], ''a@b@c'')" by code_simp
  have sd: "toLowerCase (domainAfterFirstAt ''a@b@c'') = ''b@c''" by code_simp
  have fa: "formatAddress [] ''x@target.test'' = ''x@target.test''" by code_simp
  have ca: "collapseAddress [(''b@c'', ''x@target.test'')] ''a@b@c'' = ''a@b@c''" by code_simp
  have tr: "trim ''b@c=x@target.test'' \<noteq> []" by code_simp
  have ch: "collapseHeader [(''b@c'', ''x@target.test'')] (mkHeader ''To'' ''a@b@c'') = mkHeader ''To'' ''a@b@c''"
    by code_simp
  have "DomainCollapseProcessor_process
        (parsedContext (Some ''b@c=x@target.test'') [mkHeader ''To'' ''a@b@c''])
      = (continue, parsedContext (Some ''b@c=x@target.test'') [mkHeader ''To'' ''a@b@c''])"
    by (simp add: DomainCollapseProcessor_process_def parsedContext_def orEmpty_def Let_def m tr ch)
  with m sp pa sd fa ca show ?thesis by simp
qed

text \<open>
  Claim C5, amended: the mailbox domain is the text between the first \<open>@\<close> and the next
  one (or the end of the mailbox). For a header named To, Cc or Bcc at position \<open>i\<close> and
  an address \<open>a\<close> of it whose lower-cased domain is a key of the configured map with
  target \<open>target\<close>: the stage continues and maps \<open>collapseHeader\<close> over the headers; the
  header at \<open>i\<close> keeps its name, its value becomes the \<open>, \<close>-join of its rewritten
  addresses and its raw form is regenerated from the two; and \<open>a\<close> is rewritten to its own
  display name with the target as mailbox. The witness is the example of the claim.
\<close>

theorem domainCollapse_rewrites:
  assumes "parsedEmail ctx = Some pe"
    and "DOMAIN_COLLAPSE_MAPPING (env ctx) = Some cfg"
    and "i < length (headers pe)"
    and "toLowerCase (hname (headers pe ! i)) \<in> {''to'', ''cc'', ''bcc''}"
    and "a \<in> set (splitAddresses (hvalue (headers pe ! i)))"
    and "map_of (parseDomainCollapseMap cfg) (toLowerCase (domainPartOf (snd (parseAddress a))))
         = Some target"
  shows "DomainCollapseProcessor_process ctx
         = (continue, ctx\<lparr>parsedEmail :=
              Some (pe\<lparr>headers := map (collapseHeader (parseDomainCollapseMap cfg)) (headers pe)\<rparr>)\<rparr>)
     \<and> collapseHeader (parseDomainCollapseMap cfg) (headers pe ! i)
         = mkHeader (hname (headers pe ! i))
             (joinWith '', '' (map (collapseAddress (parseDomainCollapseMap cfg))
                                 (splitAddresses (hvalue (headers pe ! i)))))
     \<and> collapseAddress (parseDomainCollapseMap cfg) a = formatAddress (fst (parseAddress a)) target"
proof -
  let ?m = "parseDomainCollapseMap cfg"
  from assms(6) have ne: "?m \<noteq> []" by auto
  then have nb: "trim cfg \<noteq> []" using parseDomainCollapseMap_blank by blast
  have 1: "DomainCollapseProcessor_process ctx
         = (continue, ctx\<lparr>parsedEmail := Some (pe\<lparr>headers := map (collapseHeader ?m) (headers pe)\<rparr>)\<rparr>)"
    using assms(1,2) ne nb by (simp add: DomainCollapseProcessor_process_def orEmpty_def Let_def)
  have 2: "collapseHeader ?m (headers pe ! i)
         = mkHeader (hname (headers pe ! i))
             (joinWith '', '' (map (collapseAddress ?m) (splitAddresses (hvalue (headers pe ! i)))))"
    using assms(4) by (simp add: collapseHeader_def mkHeader_def Let_def)
  from 1 2 collapseAddress_key [OF assms(6)] show ?thesis by blast
qed

theorem domainCollapse_rewrites_witness:
  \<open>DomainCollapseProcessor_process
     (parsedContext (Some ''example.org=sales@target.test'') [mkHeader ''To'' ''Alice <alice@example.org>''])
   = (continue,
      parsedContext (Some ''example.org=sales@target.test'') [mkHeader ''To'' ''"Alice" <sales@target.test>''])\<close>
proof -
  let ?cfg = "''example.org=sales@target.test''"
  let ?h = "mkHeader ''To'' ''Alice <alice@example.org>''"
  let ?ctx = "parsedContext (Some ?cfg) [?h]"
  let ?pe = "\<lparr>headers = [?h], body = []\<rparr>"
  have m: "parseDomainCollapseMap ?cfg = [(''example.org'', ''sales@target.test'')]" by code_simp
  have sp: "splitAddresses ''Alice <alice@example.org>'' = [''Alice <alice@example.org>'']" by code_simp
  have pa: "parseAddress ''Alice <alice@example.org>'' = (''Alice'', ''alice@example.org'')" by code_simp
  have dp: "toLowerCase (domainPartOf ''alice@example.org'') = ''example.org''" by code_simp
  have lo: "toLowerCase ''To'' = ''to''" by code_simp
  have fa: \<open>formatAddress ''Alice'' ''sales@target.test'' = ''"Alice" <sales@target.test>''\<close> by code_simp
  have a1: "parsedEmail ?ctx = Some ?pe" by (simp add: parsedContext_def)
  have a2: "DOMAIN_COLLAPSE_MAPPING (env ?ctx) = Some ?cfg" by (simp add: parsedContext_def)
  have a3: "0 < length (headers ?pe)" by simp
  have a4: "toLowerCase (hname (headers ?pe ! 0)) \<in> {''to'', ''cc'', ''bcc''}"
    by (simp add: mkHeader_def lo)
  have a5: "''Alice <alice@example.org>'' \<in> set (splitAddresses (hvalue (headers ?pe ! 0)))"
    by (simp add: mkHeader_def sp)
  have a6: "map_of (parseDomainCollapseMap ?cfg)
              (toLowerCase (domainPartOf (snd (parseAddress ''Alice <alice@example.org>''))))
            = Some ''sales@target.test''"
    by (simp add: m pa dp)
  have hn: "hname ?h = ''To''" and hv: "hvalue ?h = ''Alice <alice@example.org>''"
    by (simp_all add: mkHeader_def)
  note r = domainCollapse_rewrites [OF a1 a2 a3 a4 a5 a6]
  from r have p1: "DomainCollapseProcessor_process ?ctx
      = (continue, ?ctx\<lparr>parsedEmail :=
           Some (?pe\<lparr>headers := map (collapseHeader (parseDomainCollapseMap ?cfg)) (headers ?pe)\<rparr>)\<rparr>)"
    by (rule conjunct1)
  from r have p2: "collapseHeader (parseDomainCollapseMap ?cfg) (headers ?pe ! 0)
         = mkHeader (hname (headers ?pe ! 0))
             (joinWith '', '' (map (collapseAddress (parseDomainCollapseMap ?cfg))
                                 (splitAddresses (hvalue (headers ?pe ! 0)))))"
    by (rule conjunct1 [OF conjunct2])
  from r have p3: "collapseAddress (parseDomainCollapseMap ?cfg) ''Alice <alice@example.org>''
         = formatAddress (fst (parseAddress ''Alice <alice@example.org>'')) ''sales@target.test''"
    by (rule conjunct2 [OF conjunct2])
  have ch: \<open>collapseHeader (parseDomainCollapseMap ?cfg) ?h = mkHeader ''To'' ''"Alice" <sales@target.test>''\<close>
    using p2 by (simp only: nth_Cons_0 ParsedEmail.simps hn hv sp list.map p3 pa fst_conv fa joinWith.simps)
  show ?thesis
    unfolding p1 by (simp add: parsedContext_def ch)
qed

section \<open>Properties of the parser and the serialiser\<close>

lemma pushCurrent_emit:
  "pushCurrent st = psHeaders st @ emitHeader (currentHeaderName st) (currentHeaderValue st)"
  by (simp add: pushCurrent_def emitHeader_def)

lemma namedHeaders_Cons:
  "namedHeaders ((n, v) # nvs) = emitHeader n v @ namedHeaders nvs"
  by (simp add: namedHeaders_def emitHeader_def)

lemma parseLine_continuation:
  "isHeaderSection st \<Longrightarrow> trim l \<noteq> [] \<Longrightarrow> startsWithBlank l \<Longrightarrow>
   parseLine st l = st\<lparr>currentHeaderValue := appendContinuation (currentHeaderValue st) l\<rparr>"
  by (simp add: parseLine_def appendContinuation_def)

lemma parseLine_start:
  "isHeaderSection st \<Longrightarrow> trim l \<noteq> [] \<Longrightarrow> \<not> startsWithBlank l \<Longrightarrow>
   parseLine st l = st\<lparr>psHeaders := pushCurrent st,
                         currentHeaderName := fst (splitHeaderLine l),
                         currentHeaderValue := snd (splitHeaderLine l)\<rparr>"
  by (simp add: parseLine_def splitHeaderLine_def split: option.splits)

lemma foldl_parseLine_section:
  "isHeaderSection st \<Longrightarrow> \<forall>l \<in> set ls. trim l \<noteq> [] \<Longrightarrow>
   isHeaderSection (foldl parseLine st ls)
   \<and> bodyLines (foldl parseLine st ls) = bodyLines st
   \<and> pushCurrent (foldl parseLine st ls)
       = psHeaders st
         @ emitHeader (currentHeaderName st)
             (foldl appendContinuation (currentHeaderValue st) (takeWhile startsWithBlank ls))
         @ namedHeaders (startedHeaders ls)"
proof (induction ls arbitrary: st)
  case Nil
  then show ?case by (simp add: pushCurrent_emit namedHeaders_def)
next
  case (Cons l ls)
  from Cons.prems have nb: "trim l \<noteq> []" and rest: "\<forall>l \<in> set ls. trim l \<noteq> []" by simp_all
  show ?case
  proof (cases "startsWithBlank l")
    case True
    let ?st = "st\<lparr>currentHeaderValue := appendContinuation (currentHeaderValue st) l\<rparr>"
    have step: "parseLine st l = ?st" using Cons.prems(1) nb True by (rule parseLine_continuation)
    have hs: "isHeaderSection ?st" using Cons.prems(1) by simp
    from Cons.IH [OF hs rest] show ?thesis using True by (simp add: step)
  next
    case False
    let ?st = "st\<lparr>psHeaders := pushCurrent st,
                    currentHeaderName := fst (splitHeaderLine l),
                    currentHeaderValue := snd (splitHeaderLine l)\<rparr>"
    have step: "parseLine st l = ?st" using Cons.prems(1) nb False by (rule parseLine_start)
    have hs: "isHeaderSection ?st" using Cons.prems(1) by simp
    from Cons.IH [OF hs rest] show ?thesis
      using False by (simp add: step pushCurrent_emit namedHeaders_Cons)
  qed
qed

lemma foldl_parseLine_body:
  "\<not> isHeaderSection st \<Longrightarrow> foldl parseLine st ls = st\<lparr>bodyLines := bodyLines st @ ls\<rparr>"
  by (induction ls arbitrary: st) (simp_all add: parseLine_def)

lemma parseEmail_lines:
  fixes codec bytes
  defines "ls \<equiv> allLines (decode codec bytes)"
  shows "headers (parseEmail codec bytes) = namedHeaders (startedHeaders (headerSection ls))
     \<and> body (parseEmail codec bytes)
        = encode codec (joinWith [CHR 0x0A] (drop 1 (dropWhile (\<lambda>l. trim l \<noteq> []) ls)))"
proof -
  let ?P = "\<lambda>l. trim l \<noteq> []"
  let ?hs = "takeWhile ?P ls" and ?rest = "dropWhile ?P ls"
  let ?st1 = "foldl parseLine initialParseState ?hs"
  have init: "isHeaderSection initialParseState" by (simp add: initialParseState_def)
  have nb: "\<forall>l \<in> set ?hs. trim l \<noteq> []" by (auto dest: set_takeWhileD)
  note s = foldl_parseLine_section [OF init nb]
  from s have h1: "isHeaderSection ?st1" by simp
  from s have b1: "bodyLines ?st1 = []" by (simp add: initialParseState_def)
  from s have p1: "pushCurrent ?st1 = namedHeaders (startedHeaders ?hs)"
    by (simp add: initialParseState_def emitHeader_def)
  have split: "foldl parseLine initialParseState ls = foldl parseLine ?st1 ?rest"
    by (simp add: foldl_append [symmetric])
  let ?st = "foldl parseLine initialParseState ls"
  have fin: "(if currentHeaderName ?st \<noteq> [] \<and> isHeaderSection ?st
              then psHeaders ?st @ [mkHeader (currentHeaderName ?st) (currentHeaderValue ?st)]
              else psHeaders ?st) = namedHeaders (startedHeaders ?hs)
             \<and> bodyLines ?st = drop 1 ?rest"
  proof (cases ?rest)
    case Nil
    have e: "?st = ?st1" by (simp only: split Nil foldl_Nil)
    have "bodyLines ?st1 = drop 1 ?rest" by (simp only: Nil b1 drop_Nil)
    then show ?thesis
      unfolding e using h1 p1 by (simp add: pushCurrent_def)
  next
    case (Cons b rest')
    have "\<not> ?P (hd ?rest)" by (rule hd_dropWhile) (simp only: Cons list.distinct not_False_eq_True)
    then have tb: "trim b = []" by (simp only: Cons list.sel) simp
    let ?st2 = "?st1\<lparr>psHeaders := pushCurrent ?st1, isHeaderSection := False\<rparr>"
    have pl: "parseLine ?st1 b = ?st2" using h1 tb by (simp add: parseLine_def)
    have nh: "\<not> isHeaderSection ?st2" by simp
    have e: "?st = ?st2\<lparr>bodyLines := bodyLines ?st2 @ rest'\<rparr>"
      by (simp only: split Cons foldl_Cons pl foldl_parseLine_body [OF nh])
    have d: "drop 1 ?rest = rest'" by (simp only: Cons) simp
    show ?thesis
      unfolding e d using b1 p1 by simp
  qed
  show ?thesis
    unfolding parseEmail_def ls_def [symmetric] headerSection_def Let_def
    using fin by simp
qed

lemma byteCodec_roundtrip: "\<forall>s. decode byteCodec (encode byteCodec s) = s"
proof
  fix s
  have "\<And>c::char. char_of (unat (of_nat (of_char c) :: byte)) = c"
    by (simp add: unat_of_nat)
  then show "decode byteCodec (encode byteCodec s) = s"
    by (simp add: byteCodec_def map_idI)
qed



lemma splitOn_nonempty: "splitOn d s \<noteq> []"
  by (induction s) (auto split: list.splits)

lemma splitOn_append:
  "d \<notin> set l \<Longrightarrow> splitOn d (l @ d # rest) = l # splitOn d rest"
  by (induction l) auto

lemma splitOn_parts:
  "p \<in> set (splitOn d s) \<Longrightarrow> d \<notin> set p"
proof (induction s arbitrary: p)
  case Nil
  then show ?case by simp
next
  case (Cons c s)
  show ?case
  proof (cases "c = d")
    case True
    with Cons show ?thesis by auto
  next
    case False
    obtain q qs where q: "splitOn d s = q # qs"
      using splitOn_nonempty [of d s] by (cases "splitOn d s") auto
    with False Cons.prems have "p = c # q \<or> p \<in> set qs" by simp
    with q Cons.IH False show ?thesis by auto
  qed
qed

lemma normaliseNewlines_line:
  "CHR 0x0A \<notin> set l \<Longrightarrow>
   normaliseNewlines (l @ CHR 0x0D # CHR 0x0A # rest) = l @ CHR 0x0A # normaliseNewlines rest"
proof (induction l)
  case Nil
  then show ?case by simp
next
  case (Cons a l)
  then have ih: "normaliseNewlines (l @ CHR 0x0D # CHR 0x0A # rest) = l @ CHR 0x0A # normaliseNewlines rest"
    by simp
  show ?case
  proof (cases l)
    case Nil
    with ih show ?thesis by simp
  next
    case (Cons b l')
    with Cons.prems have "b \<noteq> CHR 0x0A" by auto
    with Cons ih show ?thesis by simp
  qed
qed

lemma allLines_line:
  "CHR 0x0A \<notin> set l \<Longrightarrow> allLines (l @ CHR 0x0D # CHR 0x0A # rest) = l # allLines rest"
  by (simp add: allLines_def normaliseNewlines_line splitOn_append)

lemma allLines_lines:
  "\<forall>l \<in> set ls. CHR 0x0A \<notin> set l \<Longrightarrow>
   allLines (concat (map (\<lambda>l. l @ [CHR 0x0D, CHR 0x0A]) ls) @ rest) = ls @ allLines rest"
  by (induction ls) (simp_all add: allLines_line)

lemma joinWith_concat:
  "ls \<noteq> [] \<Longrightarrow> joinWith sep ls @ sep @ rest = concat (map (\<lambda>l. l @ sep) ls) @ rest"
  by (induction sep ls rule: joinWith.induct) simp_all

lemma allLines_serialised:
  assumes "\<forall>l \<in> set ls. CHR 0x0A \<notin> set l"
  shows "\<exists>rest. allLines (joinWith [CHR 0x0D, CHR 0x0A] ls @ [CHR 0x0D, CHR 0x0A, CHR 0x0D, CHR 0x0A] @ b)
               = ls @ [] # rest"
proof (cases "ls = []")
  case True
  have "allLines ([] @ CHR 0x0D # CHR 0x0A # (CHR 0x0D # CHR 0x0A # b)) = [] # allLines (CHR 0x0D # CHR 0x0A # b)"
    by (rule allLines_line) simp
  with True show ?thesis by simp
next
  case False
  have e: "joinWith [CHR 0x0D, CHR 0x0A] ls @ [CHR 0x0D, CHR 0x0A, CHR 0x0D, CHR 0x0A] @ b
        = concat (map (\<lambda>l. l @ [CHR 0x0D, CHR 0x0A]) ls) @ ([] @ CHR 0x0D # CHR 0x0A # b)"
    using joinWith_concat [OF False, of "[CHR 0x0D, CHR 0x0A]" "CHR 0x0D # CHR 0x0A # b"] by simp
  have "allLines ([] @ CHR 0x0D # CHR 0x0A # b) = [] # allLines b"
    by (rule allLines_line) simp
  then show ?thesis
    unfolding e allLines_lines [OF assms] by simp
qed

lemma dropWhile_snoc: "\<not> P x \<Longrightarrow> dropWhile P (ys @ [x]) = dropWhile P ys @ [x]"
  by (induction ys) simp_all

lemma trim_Nil: "trim [] = []"
  by (simp add: trim_def)

lemma trim_whitespace_Cons: "isWhiteSpace c \<Longrightarrow> trim (c # s) = trim s"
  by (simp add: trim_def)

lemma trim_Cons: "\<not> isWhiteSpace x \<Longrightarrow> trim (x # xs) = x # rev (dropWhile isWhiteSpace (rev xs))"
  by (simp add: trim_def dropWhile_snoc)

lemma set_trim: "set (trim s) \<subseteq> set s"
proof -
  have "set (trim s) \<subseteq> set (dropWhile isWhiteSpace s)"
    unfolding trim_def using set_dropWhileD [of _ isWhiteSpace "rev (dropWhile isWhiteSpace s)"] by auto
  also have "\<dots> \<subseteq> set s" using set_dropWhileD [of _ isWhiteSpace s] by auto
  finally show ?thesis .
qed

lemma trim_hd: "trim s \<noteq> [] \<Longrightarrow> \<not> isWhiteSpace (hd (trim s))"
proof -
  assume ne: "trim s \<noteq> []"
  let ?d = "dropWhile isWhiteSpace s"
  have t: "trim s = rev (dropWhile isWhiteSpace (rev ?d))" by (simp add: trim_def)
  have dne: "?d \<noteq> []"
  proof
    assume e: "?d = []"
    have "trim s = []" unfolding t e by simp
    with ne show False by simp
  qed
  then obtain x d' where d: "?d = x # d'" by (cases ?d) auto
  from dne have "\<not> isWhiteSpace (hd ?d)" by (rule hd_dropWhile)
  with d have nx: "\<not> isWhiteSpace x" by simp
  have "trim s = x # rev (dropWhile isWhiteSpace (rev d'))"
    unfolding t d using nx by (simp add: dropWhile_snoc)
  with nx show ?thesis by simp
qed

lemma trim_last: "trim s \<noteq> [] \<Longrightarrow> \<not> isWhiteSpace (last (trim s))"
proof -
  assume ne: "trim s \<noteq> []"
  let ?ys = "dropWhile isWhiteSpace (rev (dropWhile isWhiteSpace s))"
  have t: "trim s = rev ?ys" by (simp add: trim_def)
  with ne have yne: "?ys \<noteq> []" by simp
  then have "\<not> isWhiteSpace (hd ?ys)" by (rule hd_dropWhile)
  moreover have "last (rev ?ys) = hd ?ys" using yne by (simp add: last_rev)
  ultimately show ?thesis unfolding t by simp
qed

lemma dropWhile_id: "xs \<noteq> [] \<Longrightarrow> \<not> P (hd xs) \<Longrightarrow> dropWhile P xs = xs"
  by (cases xs) simp_all

lemma trim_fixed:
  assumes "s \<noteq> []" and "\<not> isWhiteSpace (hd s)" and "\<not> isWhiteSpace (last s)"
  shows "trim s = s"
proof -
  have 1: "dropWhile isWhiteSpace s = s" using assms(1,2) by (rule dropWhile_id)
  have "rev s \<noteq> []" using assms(1) by simp
  moreover have "\<not> isWhiteSpace (hd (rev s))" using assms(1,3) by (simp add: hd_rev)
  ultimately have 2: "dropWhile isWhiteSpace (rev s) = rev s" by (rule dropWhile_id)
  show ?thesis unfolding trim_def 1 2 by simp
qed

lemma trim_idem: "trim (trim s) = trim s"
proof (cases "trim s = []")
  case True
  show ?thesis by (simp only: True trim_Nil)
next
  case False
  then show ?thesis by (intro trim_fixed trim_hd trim_last)
qed

lemma trim_fixed_hd: "trim n = n \<Longrightarrow> n \<noteq> [] \<Longrightarrow> \<not> isWhiteSpace (hd n)"
  using trim_hd [of n] by simp

lemma startedHeaders_plain:
  "\<forall>l \<in> set ls. \<not> startsWithBlank l \<Longrightarrow> startedHeaders ls = map splitHeaderLine ls"
proof (induction ls)
  case Nil
  then show ?case by simp
next
  case (Cons l ls)
  then have "takeWhile startsWithBlank ls = []" by (cases ls) simp_all
  with Cons show ?case by simp
qed

lemma splitHeaderLine_clean:
  assumes "CHR 0x0A \<notin> set l" and "(n, v) = splitHeaderLine l" and "n \<noteq> []"
  shows "cleanHeader (mkHeader n v)"
proof (cases "indexOf l (CHR '':'')")
  case None
  then have nc: "CHR '':'' \<notin> set l" by (simp add: indexOf_def split: if_splits)
  from None assms(2) have n: "n = trim l" and v: "v = []" by (simp_all add: splitHeaderLine_def)
  show ?thesis
    unfolding cleanHeader_def mkHeader_def using assms(1,3) nc set_trim [of l]
    by (auto simp: n v trim_idem trim_Nil)
next
  case (Some idx)
  then have idx: "idx = length (takeWhile (\<lambda>x. x \<noteq> CHR '':'') l)"
    by (simp add: indexOf_def split: if_splits)
  have tk: "take idx l = takeWhile (\<lambda>x. x \<noteq> CHR '':'') l"
    unfolding idx by (rule takeWhile_eq_take [symmetric])
  from Some assms(2) have n: "n = trim (take idx l)" and v: "v = trim (drop (idx + 1) l)"
    by (simp_all add: splitHeaderLine_def)
  have c1: "CHR '':'' \<notin> set n"
    unfolding n tk using set_trim [of "takeWhile (\<lambda>x. x \<noteq> CHR '':'') l"]
    by (auto dest: set_takeWhileD)
  have c2: "CHR 0x0A \<notin> set n"
    unfolding n using set_trim [of "take idx l"] assms(1) by (auto dest: in_set_takeD)
  have c3: "CHR 0x0A \<notin> set v"
    unfolding v using set_trim [of "drop (idx + 1) l"] assms(1) by (auto dest: in_set_dropD)
  show ?thesis
    unfolding cleanHeader_def mkHeader_def using assms(3) c1 c2 c3
    by (simp add: n v trim_idem)
qed

lemma takeWhile_until:
  "\<forall>x \<in> set xs. P x \<Longrightarrow> \<not> P y \<Longrightarrow> takeWhile P (xs @ y # ys) = xs"
  by (induction xs) simp_all

lemma parseEmail_clean:
  assumes "\<forall>l \<in> set (headerSection (allLines (decode codec bytes))). \<not> startsWithBlank l"
  shows "\<forall>h \<in> set (headers (parseEmail codec bytes)). cleanHeader h"
proof
  fix h assume h: "h \<in> set (headers (parseEmail codec bytes))"
  let ?ls = "allLines (decode codec bytes)"
  have "headers (parseEmail codec bytes) = namedHeaders (map splitHeaderLine (headerSection ?ls))"
    using parseEmail_lines [of codec bytes] startedHeaders_plain [OF assms] by simp
  with h obtain l where l: "l \<in> set (headerSection ?ls)"
      and hd: "h = mkHeader (fst (splitHeaderLine l)) (snd (splitHeaderLine l))"
      and ne: "fst (splitHeaderLine l) \<noteq> []"
    by (auto simp: namedHeaders_def)
  from l have "l \<in> set ?ls" unfolding headerSection_def by (auto dest: set_takeWhileD)
  then have lf: "CHR 0x0A \<notin> set l" unfolding allLines_def by (rule splitOn_parts)
  show "cleanHeader h"
    unfolding hd using lf _ ne by (rule splitHeaderLine_clean) simp
qed

lemma headerLine_split:
  assumes "cleanHeader h"
  shows "splitHeaderLine (hname h @ '': '' @ hvalue h) = (hname h, hvalue h)"
proof -
  let ?n = "hname h" and ?v = "hvalue h"
  from assms have nc: "CHR '':'' \<notin> set ?n" and tn: "trim ?n = ?n" and tv: "trim ?v = ?v"
    by (simp_all add: cleanHeader_def)
  have tw: "takeWhile (\<lambda>x. x \<noteq> CHR '':'') (?n @ '': '' @ ?v) = ?n"
  proof -
    have "takeWhile (\<lambda>x. x \<noteq> CHR '':'') (?n @ CHR '':'' # ('' '' @ ?v)) = ?n"
      using nc by (intro takeWhile_until) auto
    then show ?thesis by simp
  qed
  have i: "indexOf (?n @ '': '' @ ?v) (CHR '':'') = Some (length ?n)"
    unfolding indexOf_def tw by simp
  have sp: "isWhiteSpace (CHR '' '')" by (simp add: isWhiteSpace_def)
  have "trim (drop (length ?n + 1) (?n @ '': '' @ ?v)) = trim ?v"
    using trim_whitespace_Cons [OF sp, of ?v] by simp
  then show ?thesis
    unfolding splitHeaderLine_def i using tn tv by simp
qed

lemma headerLine_plain:
  assumes "cleanHeader h"
  shows "trim (hname h @ '': '' @ hvalue h) \<noteq> [] \<and> \<not> startsWithBlank (hname h @ '': '' @ hvalue h)
         \<and> CHR 0x0A \<notin> set (hname h @ '': '' @ hvalue h)"
proof -
  from assms have ne: "hname h \<noteq> []" and t: "trim (hname h) = hname h"
      and lf: "CHR 0x0A \<notin> set (hname h)" "CHR 0x0A \<notin> set (hvalue h)"
    by (simp_all add: cleanHeader_def)
  from t ne have nw: "\<not> isWhiteSpace (hd (hname h))" by (rule trim_fixed_hd)
  obtain x xs where n: "hname h = x # xs" using ne by (cases "hname h") auto
  with nw have x: "\<not> isWhiteSpace x" by simp
  have 1: "trim (hname h @ '': '' @ hvalue h) \<noteq> []"
    unfolding n using trim_Cons [OF x, of "xs @ '': '' @ hvalue h"] by simp
  have 2: "\<not> startsWithBlank (hname h @ '': '' @ hvalue h)"
    unfolding n using x by (auto simp: startsWithBlank_def isWhiteSpace_def)
  from 1 2 lf show ?thesis by simp
qed

lemma namedHeaders_clean:
  "\<forall>h \<in> set hs. cleanHeader h \<Longrightarrow> namedHeaders (map (\<lambda>h. (hname h, hvalue h)) hs) = hs"
  by (induction hs) (simp_all add: namedHeaders_def cleanHeader_def mkHeader_def)

lemma parseEmail_reSerialiseEmail:
  assumes rt: "\<forall>s. decode codec (encode codec s) = s"
    and clean: "\<forall>h \<in> set hs. cleanHeader h"
  shows "headers (parseEmail codec (reSerialiseEmail codec hs b)) = hs"
proof -
  let ?line = "\<lambda>h. hname h @ '': '' @ hvalue h"
  let ?ls = "map ?line hs"
  from clean have plain: "\<forall>l \<in> set ?ls. trim l \<noteq> [] \<and> \<not> startsWithBlank l \<and> CHR 0x0A \<notin> set l"
    using headerLine_plain by auto
  then have lf: "\<forall>l \<in> set ?ls. CHR 0x0A \<notin> set l" by blast
  have d: "decode codec (reSerialiseEmail codec hs b)
           = joinWith [CHR 0x0D, CHR 0x0A] ?ls @ [CHR 0x0D, CHR 0x0A, CHR 0x0D, CHR 0x0A] @ decode codec b"
    using rt by (simp add: reSerialiseEmail_def Let_def)
  from allLines_serialised [OF lf, of "decode codec b"] obtain rest
    where al: "allLines (decode codec (reSerialiseEmail codec hs b)) = ?ls @ [] # rest"
    unfolding d by blast
  have hsec: "headerSection (?ls @ [] # rest) = ?ls"
    unfolding headerSection_def using plain by (intro takeWhile_until) (auto simp: trim_Nil)
  have st: "startedHeaders ?ls = map splitHeaderLine ?ls"
    using plain by (intro startedHeaders_plain) blast
  have sl: "map splitHeaderLine ?ls = map (\<lambda>h. (hname h, hvalue h)) hs"
    unfolding map_map o_def by (rule map_cong [OF refl]) (simp only: clean headerLine_split)
  show ?thesis
    using parseEmail_lines [of codec "reSerialiseEmail codec hs b"]
    unfolding al hsec st sl by (simp add: namedHeaders_clean [OF clean])
qed

text \<open>
  Claim C7. Let the codec decode what it encoded. When no line of the header section of a
  message begins with a space or a tab and every one of them contains a colon, then parsing
  the message, serialising the result and parsing again gives the same sequence of header
  name/value pairs as the first parse.
\<close>

theorem parse_serialise_parse:
  assumes "\<forall>s. decode codec (encode codec s) = s"
    and "\<forall>l \<in> set (headerSection (allLines (decode codec bytes))).
           \<not> startsWithBlank l \<and> CHR '':'' \<in> set l"
  shows "map (\<lambda>h. (hname h, hvalue h))
           (headers (parseEmail codec
              (reSerialiseEmail codec (headers (parseEmail codec bytes))
                                      (body (parseEmail codec bytes)))))
         = map (\<lambda>h. (hname h, hvalue h)) (headers (parseEmail codec bytes))"
proof -
  from assms(2) have "\<forall>l \<in> set (headerSection (allLines (decode codec bytes))). \<not> startsWithBlank l"
    by blast
  then have "\<forall>h \<in> set (headers (parseEmail codec bytes)). cleanHeader h"
    by (rule parseEmail_clean)
  with assms(1) show ?thesis by (simp add: parseEmail_reSerialiseEmail)
qed

theorem parse_serialise_parse_witness:
  "map (\<lambda>h. (hname h, hvalue h))
     (headers (parseEmail byteCodec
        (encode byteCodec (''To: a@b.test'' @ [CHR 0x0D, CHR 0x0A] @ ''Subject:Hi ''
                            @ [CHR 0x0D, CHR 0x0A, CHR 0x0D, CHR 0x0A] @ ''Body''))))
   = [(''To'', ''a@b.test''), (''Subject'', ''Hi'')]
   \<and> map (\<lambda>h. (hname h, hvalue h))
     (headers (parseEmail byteCodec
       (reSerialiseEmail byteCodec
          (headers (parseEmail byteCodec
             (encode byteCodec (''To: a@b.test'' @ [CHR 0x0D, CHR 0x0A] @ ''Subject:Hi ''
                                 @ [CHR 0x0D, CHR 0x0A, CHR 0x0D, CHR 0x0A] @ ''Body''))))
          (body (parseEmail byteCodec
             (encode byteCodec (''To: a@b.test'' @ [CHR 0x0D, CHR 0x0A] @ ''Subject:Hi ''
                                 @ [CHR 0x0D, CHR 0x0A, CHR 0x0D, CHR 0x0A] @ ''Body'')))))))
   = [(''To'', ''a@b.test''), (''Subject'', ''Hi'')]"
proof -
  let ?text = "''To: a@b.test'' @ [CHR 0x0D, CHR 0x0A] @ ''Subject:Hi ''
                 @ [CHR 0x0D, CHR 0x0A, CHR 0x0D, CHR 0x0A] @ ''Body''"
  let ?raw = "encode byteCodec ?text"
  have d: "decode byteCodec ?raw = ?text" using byteCodec_roundtrip by blast
  have hs: "headerSection (allLines ?text) = [''To: a@b.test'', ''Subject:Hi '']"
    by code_simp
  have h2: "\<forall>l \<in> set (headerSection (allLines (decode byteCodec ?raw))).
              \<not> startsWithBlank l \<and> CHR '':'' \<in> set l"
    unfolding d hs by (simp add: startsWithBlank_def)
  have nh: "namedHeaders (startedHeaders [''To: a@b.test'', ''Subject:Hi ''])
            = [mkHeader ''To'' ''a@b.test'', mkHeader ''Subject'' ''Hi'']"
    by code_simp
  have p: "headers (parseEmail byteCodec ?raw) = [mkHeader ''To'' ''a@b.test'', mkHeader ''Subject'' ''Hi'']"
    using parseEmail_lines [of byteCodec ?raw] unfolding d hs nh by (rule conjunct1)
  have q: "map (\<lambda>h. (hname h, hvalue h)) (headers (parseEmail byteCodec ?raw))
           = [(''To'', ''a@b.test''), (''Subject'', ''Hi'')]"
    unfolding p by (simp add: mkHeader_def)
  from parse_serialise_parse [OF byteCodec_roundtrip h2] q show ?thesis by simp
qed

section \<open>Properties of the spam check\<close>

text \<open>
  Claim C4. The claim is that the From value \<open>"XyZaBcDe" <xyzabcde@gmail.com>\<close> is
  rejected as a spam pattern whatever the subject. The sender name the check extracts is the
  text before the angle bracket, trimmed, with its quotes: \<open>"XyZaBcDe"\<close>. The test
  \<open>/^[A-Za-z0-9]+$/\<close> fails on the quotes, the letter count is never taken, and with
  the subject \<open>Hello\<close> the message continues. Without the quotes the same name is
  rejected.
\<close>

theorem spamCheck_quoted_display_name:
  \<open>senderNameOf ''"XyZaBcDe" <xyzabcde@gmail.com>'' = ''"XyZaBcDe"''
   \<and> regexTest alnumRegex ''"XyZaBcDe"'' = False
   \<and> spamCheck ''"XyZaBcDe" <xyzabcde@gmail.com>'' ''Hello'' = continue
   \<and> spamCheck ''XyZaBcDe <xyzabcde@gmail.com>'' ''Hello''
       = reject ''Sender name resembles spam pattern.''\<close>
  by code_simp

section \<open>Properties of the response classification\<close>

lemma tryCounts_SomeD:
  assumes "tryCounts grp r b s ks = Some caps"
  shows "\<exists>k \<in> set ks. \<exists>caps'. matchItems r (b \<and> k = 0) (drop k s) = Some caps'
      \<and> caps = (if grp then take k s # caps' else caps')"
  using assms
proof (induction ks)
  case Nil
  then show ?case by simp
next
  case (Cons k ks)
  show ?case
  proof (cases "matchItems r (b \<and> k = 0) (drop k s)")
    case None
    with Cons.prems have "tryCounts grp r b s ks = Some caps" by simp
    from Cons.IH [OF this] obtain k' caps' where "k' \<in> set ks"
      and "matchItems r (b \<and> k' = 0) (drop k' s) = Some caps'"
      and "caps = (if grp then take k' s # caps' else caps')" by blast
    then show ?thesis by (intro bexI [of _ k'] exI [of _ caps']) simp_all
  next
    case (Some caps')
    with Cons.prems have "caps = (if grp then take k s # caps' else caps')" by simp
    with Some show ?thesis by (intro bexI [of _ k] exI [of _ caps']) simp_all
  qed
qed

lemma candidates_le: "k \<in> set (candidates q n) \<Longrightarrow> k \<le> n"
  by (cases q) (auto split: if_splits)

lemma take_run: "k \<le> length (takeWhile p s) \<Longrightarrow> list_all p (take k s)"
proof -
  assume k: "k \<le> length (takeWhile p s)"
  have "take k s = take k (takeWhile p s @ dropWhile p s)" by simp
  also have "\<dots> = take k (takeWhile p s)" using k by (simp del: takeWhile_dropWhile_id)
  finally have "set (take k s) \<subseteq> set (takeWhile p s)" by (auto dest: in_set_takeD)
  then show ?thesis by (auto simp: list_all_iff dest: set_takeWhileD)
qed

lemma matchItems_captures:
  "matchItems r b s = Some caps \<Longrightarrow> list_all2 (\<lambda>cap p. list_all p cap) caps (groupClasses r)"
proof (induction r arbitrary: b s caps)
  case Nil
  then show ?case by simp
next
  case (Cons i r)
  show ?case
  proof (cases i)
    case Bol
    with Cons show ?thesis by (auto split: if_splits)
  next
    case Eol
    with Cons show ?thesis by (auto split: if_splits)
  next
    case (Cls p q)
    with Cons.prems obtain k where "matchItems r (b \<and> k = 0) (drop k s) = Some caps"
      by (auto dest!: tryCounts_SomeD)
    with Cons.IH Cls show ?thesis by simp
  next
    case (Grp p q)
    with Cons.prems obtain k caps' where k: "k \<in> set (candidates q (length (takeWhile p s)))"
      and m': "matchItems r (b \<and> k = 0) (drop k s) = Some caps'"
      and c: "caps = take k s # caps'"
      by (auto dest!: tryCounts_SomeD)
    from k have "list_all p (take k s)" by (intro take_run candidates_le)
    with Cons.IH [OF m'] c Grp show ?thesis by simp
  qed
qed

lemma searchItems_captures:
  "searchItems r b s = Some caps \<Longrightarrow> list_all2 (\<lambda>cap p. list_all p cap) caps (groupClasses r)"
  by (induction s arbitrary: b) (auto split: option.splits dest: matchItems_captures)

lemma regexMatch_captures:
  "regexMatch r s = Some caps \<Longrightarrow> list_all2 (\<lambda>cap p. list_all p cap) caps (groupClasses r)"
  unfolding regexMatch_def by (rule searchItems_captures)

lemma groupClasses_append: "groupClasses (r @ r') = groupClasses r @ groupClasses r'"
  by (induction r rule: groupClasses.induct) simp_all

lemma groupClasses_lits_i: "groupClasses (lits_i xs) = []"
  by (induction xs) (simp_all add: lits_i_def lit_i_def)

lemma intRegex_shape:
  "regexMatch intRegex data = None \<or> (\<exists>g. regexMatch intRegex data = Some [g] \<and> list_all isDigit g)"
proof (cases "regexMatch intRegex data")
  case None
  then show ?thesis by simp
next
  case (Some caps)
  from regexMatch_captures [OF Some]
  have "list_all2 (\<lambda>cap p. list_all p cap) caps [isDigit]"
    by (simp add: intRegex_def groupClasses_append groupClasses_lits_i)
  then obtain g where "caps = [g]" "list_all isDigit g"
    by (auto simp: list_all2_Cons2)
  with Some show ?thesis by simp
qed

lemma booleanRegex_shape:
  "regexMatch booleanRegex data = None \<or> (\<exists>g. regexMatch booleanRegex data = Some [g] \<and> list_all isDigit g)"
proof (cases "regexMatch booleanRegex data")
  case None
  then show ?thesis by simp
next
  case (Some caps)
  from regexMatch_captures [OF Some]
  have "list_all2 (\<lambda>cap p. list_all p cap) caps [isDigit]"
    by (simp add: booleanRegex_def groupClasses_append groupClasses_lits_i)
  then obtain g where "caps = [g]" "list_all isDigit g"
    by (auto simp: list_all2_Cons2)
  with Some show ?thesis by simp
qed

lemma digit_zero: "(of_char d - 48 = (0::nat) \<and> isDigit d) = (d = CHR ''0'')"
proof
  assume "of_char d - 48 = (0::nat) \<and> isDigit d"
  then have "of_char d = (48::nat)" by (simp add: isDigit_def)
  then have "of_char d = (of_char (CHR ''0'') :: nat)" by simp
  then show "d = CHR ''0''" by (simp only: of_char_eq_iff)
next
  assume "d = CHR ''0''"
  then show "of_char d - 48 = (0::nat) \<and> isDigit d" by (simp add: isDigit_def)
qed

lemma foldl_digits_pos:
  "list_all isDigit ds \<Longrightarrow>
   (0 < foldl (\<lambda>n d. 10 * n + (of_char d - 48)) (n::nat) ds) = (0 < n \<or> (\<exists>c \<in> set ds. c \<noteq> CHR ''0''))"
proof (induction ds arbitrary: n)
  case Nil
  then show ?case by simp
next
  case (Cons d ds)
  from Cons.prems have d: "isDigit d" and ds: "list_all isDigit ds" by simp_all
  from d digit_zero [of d] have z: "(of_char d - 48 = (0::nat)) = (d = CHR ''0'')" by simp
  have "(0 < 10 * n + (of_char d - 48 :: nat)) = (0 < n \<or> d \<noteq> CHR ''0'')"
    using z by auto
  with Cons.IH [OF ds, of "10 * n + (of_char d - 48)"] show ?case
    by auto
qed

lemma parseInt_pos:
  "list_all isDigit ds \<Longrightarrow> (0 < parseInt ds) = (\<exists>c \<in> set ds. c \<noteq> CHR ''0'')"
  by (simp add: parseInt_def foldl_digits_pos)

text \<open>
  Claim C2, as stated: a body without a fault indicator that contains an integer result
  succeeds if and only if the integer is positive, and fails with the invalid-record-id
  reason otherwise. It fails for a negative integer: the pattern of the code captures
  digits only, so in \<open><int>-5</int>\<close> it finds no integer result at all. The response is
  then classified by the later rules: it fails with the unexpected-format reason, not the
  invalid-record-id reason, and when the body also holds \<open><boolean>1</boolean>\<close> it
  succeeds, although the integer is not positive.
\<close>

theorem validateResponse_negative_integer:
  "spec_integerResult ''<value><int>-5</int></value>'' = Some (- 5)
   \<and> validateResponse \<lparr>ok = True, status = 200, statusText = ''OK''\<rparr> ''<value><int>-5</int></value>''
     = Inl ''Unexpected response format from CRM.''
   \<and> spec_integerResult ''<value><int>-5</int></value><value><boolean>1</boolean></value>'' = Some (- 5)
   \<and> validateResponse \<lparr>ok = True, status = 200, statusText = ''OK''\<rparr>
       ''<value><int>-5</int></value><value><boolean>1</boolean></value>''
     = Inr ()"
proof -
  have 1: "spec_integerResult ''<value><int>-5</int></value>'' = Some (- 5)"
    by code_simp
  have 2: "validateResponse \<lparr>ok = True, status = 200, statusText = ''OK''\<rparr> ''<value><int>-5</int></value>''
     = Inl ''Unexpected response format from CRM.''"
    by code_simp
  have 3: "spec_integerResult ''<value><int>-5</int></value><value><boolean>1</boolean></value>'' = Some (- 5)"
    by code_simp
  have 4: "validateResponse \<lparr>ok = True, status = 200, statusText = ''OK''\<rparr>
       ''<value><int>-5</int></value><value><boolean>1</boolean></value>''
     = Inr ()"
    by code_simp
  from 1 2 3 4 show ?thesis by (intro conjI)
qed

text \<open>
  Claim C2, amended: an integer result is an \<open>int\<close> element holding a string of decimal
  digits without a sign, as the integer pattern reads it; a signed integer is not one, and
  such a body goes on to the later rules. The rules of \<open>validateResponse\<close>, in order. A
  response that is not \<open>ok\<close> fails with the status line, whatever the body. Otherwise a
  body containing \<open><fault>\<close> fails: with the mailbox/route reason when the extracted
  fault string contains the no-route text, and else with the fault string itself after the
  fixed prefix \<open>CRM Error: \<close>. Otherwise, when the integer pattern matches with digits
  \<open>g\<close>, the call succeeds if the number is positive and fails with the
  invalid-record-id reason if not; the number is positive exactly when one of the digits
  is not \<open>0\<close>. Otherwise, when the boolean pattern matches with digit \<open>g\<close>, the call
  fails with the rejected-by-CRM reason if \<open>g\<close> is \<open>0\<close> and succeeds if not. Otherwise
  it fails with the unexpected-format reason. The two patterns either do not match or
  capture one string of digits, so the rules cover every response.
\<close>

theorem validateResponse_classification:
  "(\<not> ok response \<longrightarrow>
      validateResponse response data
      = Inl (''HTTP Error: '' @ decimal (status response) @ '' '' @ statusText response))
   \<and> (ok response \<and> includesStr data ''<fault>'' \<longrightarrow>
      validateResponse response data
      = Inl (if includesStr (faultStringOf data)
                  ''ValueError: No possible route found for incoming message''
             then ''Mailbox not found or no valid route. Please check the mail alias or CRM configuration.''
             else ''CRM Error: '' @ faultStringOf data))
   \<and> (ok response \<and> \<not> includesStr data ''<fault>'' \<longrightarrow>
        (\<forall>g. regexMatch intRegex data = Some [g] \<longrightarrow>
           validateResponse response data
           = (if 0 < parseInt g then Inr () else Inl ''Invalid record ID received from CRM.''))
        \<and> (regexMatch intRegex data = None \<longrightarrow>
             (\<forall>g. regexMatch booleanRegex data = Some [g] \<longrightarrow>
                validateResponse response data
                = (if g = ''0'' then Inl ''Email rejected by CRM.'' else Inr ()))
             \<and> (regexMatch booleanRegex data = None \<longrightarrow>
                  validateResponse response data = Inl ''Unexpected response format from CRM.'')))
   \<and> (regexMatch intRegex data = None
        \<or> (\<exists>g. regexMatch intRegex data = Some [g] \<and> list_all isDigit g))
   \<and> (regexMatch booleanRegex data = None
        \<or> (\<exists>g. regexMatch booleanRegex data = Some [g] \<and> list_all isDigit g))
   \<and> (\<forall>g. regexMatch intRegex data = Some [g]
          \<longrightarrow> (0 < parseInt g) = (\<exists>c \<in> set g. c \<noteq> CHR ''0''))"
proof (intro conjI impI allI)
  show "regexMatch intRegex data = None
        \<or> (\<exists>g. regexMatch intRegex data = Some [g] \<and> list_all isDigit g)"
    by (rule intRegex_shape)
  show "regexMatch booleanRegex data = None
        \<or> (\<exists>g. regexMatch booleanRegex data = Some [g] \<and> list_all isDigit g)"
    by (rule booleanRegex_shape)
next
  fix g
  assume m: "regexMatch intRegex data = Some [g]"
  with intRegex_shape [of data] have "list_all isDigit g" by simp
  then show "(0 < parseInt g) = (\<exists>c \<in> set g. c \<noteq> CHR ''0'')"
    by (rule parseInt_pos)
qed (simp_all add: validateResponse_def Let_def)

theorem validateResponse_classification_witness:
  "validateResponse \<lparr>ok = False, status = 503, statusText = ''Service Unavailable''\<rparr>
       ''<value><int>5</int></value>''
     = Inl ''HTTP Error: 503 Service Unavailable''
   \<and> validateResponse \<lparr>ok = True, status = 200, statusText = ''OK''\<rparr>
       ''<fault><name>faultString</name><value><string> ValueError: No possible route found for incoming message </string></value></fault>''
     = Inl ''Mailbox not found or no valid route. Please check the mail alias or CRM configuration.''
   \<and> validateResponse \<lparr>ok = True, status = 200, statusText = ''OK''\<rparr>
       ''<fault><name>faultString</name><value><string> Access Denied </string></value></fault><int>7</int>''
     = Inl ''CRM Error: Access Denied''
   \<and> validateResponse \<lparr>ok = True, status = 200, statusText = ''OK''\<rparr>
       ''<value><int> 42 </int></value><boolean>0</boolean>''
     = Inr ()
   \<and> validateResponse \<lparr>ok = True, status = 200, statusText = ''OK''\<rparr> ''<value><int>0</int></value>''
     = Inl ''Invalid record ID received from CRM.''
   \<and> validateResponse \<lparr>ok = True, status = 200, statusText = ''OK''\<rparr> ''<value><boolean>1</boolean></value>''
     = Inr ()
   \<and> validateResponse \<lparr>ok = True, status = 200, statusText = ''OK''\<rparr> ''<value><boolean>0</boolean></value>''
     = Inl ''Email rejected by CRM.''
   \<and> validateResponse \<lparr>ok = True, status = 200, statusText = ''OK''\<rparr> ''<value><string>x</string></value>''
     = Inl ''Unexpected response format from CRM.''"
proof -
  let ?bad = "\<lparr>ok = False, status = 503, statusText = ''Service Unavailable''\<rparr>"
  let ?good = "\<lparr>ok = True, status = 200, statusText = ''OK''\<rparr>"
  let ?d = "''<value><int> 42 </int></value><boolean>0</boolean>''"
  have dec: "decimal 503 = ''503''" by code_simp
  have 1: "validateResponse ?bad ''<value><int>5</int></value>'' = Inl ''HTTP Error: 503 Service Unavailable''"
    using validateResponse_classification [of ?bad "''<value><int>5</int></value>''"]
    by (simp add: dec)
  have nf: "includesStr ?d ''<fault>'' = False" by code_simp
  have im: "regexMatch intRegex ?d = Some [''42'']" by code_simp
  have pi: "parseInt ''42'' = 42" by code_simp
  have 4: "validateResponse ?good ?d = Inr ()"
    using validateResponse_classification [of ?good ?d] nf im pi by simp
  have 2: "validateResponse ?good
       ''<fault><name>faultString</name><value><string> ValueError: No possible route found for incoming message </string></value></fault>''
     = Inl ''Mailbox not found or no valid route. Please check the mail alias or CRM configuration.''"
    by code_simp
  have 3: "validateResponse ?good
       ''<fault><name>faultString</name><value><string> Access Denied </string></value></fault><int>7</int>''
     = Inl ''CRM Error: Access Denied''"
    by code_simp
  have 5: "validateResponse ?good ''<value><int>0</int></value>'' = Inl ''Invalid record ID received from CRM.''"
    by code_simp
  have 6: "validateResponse ?good ''<value><boolean>1</boolean></value>'' = Inr ()"
    by code_simp
  have 7: "validateResponse ?good ''<value><boolean>0</boolean></value>'' = Inl ''Email rejected by CRM.''"
    by code_simp
  have 8: "validateResponse ?good ''<value><string>x</string></value>'' = Inl ''Unexpected response format from CRM.''"
    by code_simp
  from 1 2 3 4 5 6 7 8 show ?thesis by (intro conjI)
qed

section \<open>Properties of the pipeline runner\<close>

lemma processorLoop_invoked:
  "\<exists>k \<le> length ps.
     invoked (snd (processorLoop ps run)) = invoked run @ map constructorName (take k ps)
     \<and> (fst (processorLoop ps run) = Completed \<longrightarrow> k = length ps)"
proof (induction ps arbitrary: run)
  case Nil
  then show ?case by simp
next
  case (Cons p ps)
  obtain out ctx' where pr: "process p (runContext run) = (out, ctx')"
    by (cases "process p (runContext run)")
  show ?case
  proof (cases out)
    case (Returned result)
    show ?thesis
    proof (cases "canContinue result")
      case False
      with pr Returned have
        "invoked (snd (processorLoop (p # ps) run)) = invoked run @ map constructorName (take 1 (p # ps))"
        "fst (processorLoop (p # ps) run) \<noteq> Completed"
        by simp_all
      then show ?thesis by (intro exI [of _ 1]) simp
    next
      case True
      let ?run = "run\<lparr>runContext := ctx', invoked := invoked run @ [constructorName p]\<rparr>"
      from pr Returned True have e: "processorLoop (p # ps) run = processorLoop ps ?run" by simp
      from Cons.IH [of ?run] obtain k where "k \<le> length ps"
        "invoked (snd (processorLoop ps ?run)) = invoked ?run @ map constructorName (take k ps)"
        "fst (processorLoop ps ?run) = Completed \<longrightarrow> k = length ps" by blast
      then show ?thesis unfolding e by (intro exI [of _ "Suc k"]) simp
    qed
  next
    case (Threw err)
    let ?run = "run\<lparr>runContext := ctx',
                    console := console run @ [ConsoleError (''Error in '' @ nameOf p) err],
                    invoked := invoked run @ [constructorName p]\<rparr>"
    from pr Threw have e: "processorLoop (p # ps) run = processorLoop ps ?run" by simp
    from Cons.IH [of ?run] obtain k where "k \<le> length ps"
      "invoked (snd (processorLoop ps ?run)) = invoked ?run @ map constructorName (take k ps)"
      "fst (processorLoop ps ?run) = Completed \<longrightarrow> k = length ps" by blast
    then show ?thesis unfolding e by (intro exI [of _ "Suc k"]) simp
  qed
qed

lemma processorLoop_append:
  "processorLoop ps1 run = (Completed, r1) \<Longrightarrow> processorLoop (ps1 @ ps2) run = processorLoop ps2 r1"
proof (induction ps1 arbitrary: run)
  case Nil
  then show ?case by simp
next
  case (Cons p ps1)
  obtain out ctx' where pr: "process p (runContext run) = (out, ctx')"
    by (cases "process p (runContext run)")
  show ?case
  proof (cases out)
    case (Returned result)
    with pr Cons.prems have c: "canContinue result" by (auto split: if_splits)
    with pr Returned Cons show ?thesis by simp
  next
    case (Threw err)
    with pr Cons show ?thesis by simp
  qed
qed

lemma process_asContinue:
  "process (asContinue p) c =
     (case process p c of (Threw err, c') \<Rightarrow> (Returned continue, c')
                        | (Returned result, c') \<Rightarrow> (Returned result, c'))"
  and constructorName_asContinue: "constructorName (asContinue p) = constructorName p"
  by (simp_all add: asContinue_def)

lemma processorLoop_asContinue:
  "runContext run' = runContext run \<Longrightarrow> invoked run' = invoked run \<Longrightarrow>
   fst (processorLoop (map asContinue ps) run') = fst (processorLoop ps run)
   \<and> runContext (snd (processorLoop (map asContinue ps) run')) = runContext (snd (processorLoop ps run))
   \<and> invoked (snd (processorLoop (map asContinue ps) run')) = invoked (snd (processorLoop ps run))"
proof (induction ps arbitrary: run run')
  case Nil
  then show ?case by simp
next
  case (Cons p ps)
  obtain out ctx' where pr: "process p (runContext run) = (out, ctx')"
    by (cases "process p (runContext run)")
  show ?case
  proof (cases out)
    case (Returned result)
    show ?thesis
    proof (cases "canContinue result")
      case False
      with pr Returned Cons.prems show ?thesis
        by (simp add: process_asContinue constructorName_asContinue)
    next
      case True
      let ?run = "run\<lparr>runContext := ctx', invoked := invoked run @ [constructorName p]\<rparr>"
      let ?run' = "run'\<lparr>runContext := ctx', invoked := invoked run' @ [constructorName p]\<rparr>"
      have a: "runContext ?run' = runContext ?run" "invoked ?run' = invoked ?run"
        using Cons.prems by simp_all
      from pr Returned True Cons.prems Cons.IH [OF a] show ?thesis
        by (simp add: process_asContinue constructorName_asContinue)
    qed
  next
    case (Threw err)
    let ?run = "run\<lparr>runContext := ctx',
                    console := console run @ [ConsoleError (''Error in '' @ nameOf p) err],
                    invoked := invoked run @ [constructorName p]\<rparr>"
    let ?run' = "run'\<lparr>runContext := ctx', invoked := invoked run' @ [constructorName p]\<rparr>"
    have a: "runContext ?run' = runContext ?run" "invoked ?run' = invoked ?run"
      using Cons.prems by simp_all
    from pr Threw Cons.prems Cons.IH [OF a] show ?thesis
      by (simp add: process_asContinue constructorName_asContinue continue_def)
  qed
qed

lemma processorLoop_rejected_with:
  "processorLoop ps run = (Rejected reason, r) \<Longrightarrow> rejectedWith (message (runContext r)) = Some reason"
proof (induction ps arbitrary: run)
  case Nil
  then show ?case by simp
next
  case (Cons p ps)
  obtain out ctx' where pr: "process p (runContext run) = (out, ctx')"
    by (cases "process p (runContext run)")
  show ?case
  proof (cases out)
    case (Returned result)
    show ?thesis
    proof (cases "canContinue result")
      case False
      with pr Returned Cons.prems show ?thesis by (auto simp: setReject_def)
    next
      case True
      with pr Returned Cons.prems Cons.IH show ?thesis by simp
    qed
  next
    case (Threw err)
    with pr Cons.prems Cons.IH show ?thesis by simp
  qed
qed

lemma processorLoop_rejects_own:
  assumes "processorLoop ps1 run = (Completed, r1)"
    and "process p (runContext r1) = (Returned result, ctx')"
    and "\<not> canContinue result"
    and "rejectReason result = Some own" and "own \<noteq> []"
  shows "processorLoop (ps1 @ p # ps2) run
     = (Rejected own,
        r1\<lparr>runContext := ctx'\<lparr>message := (message ctx')\<lparr>rejectedWith := Some own\<rparr>\<rparr>,
            console := console r1
              @ [ConsoleWarn (''Email rejected by ''
                              @ (if constructorName p = [] then ''Unknown'' else constructorName p)
                              @ '': '' @ own)],
            invoked := invoked r1 @ [constructorName p]\<rparr>)"
  using assms(2-5)
  by (simp add: processorLoop_append [OF assms(1)] orDefault_def setReject_def nameOf_def)

lemma processorLoop_rejects_default:
  assumes "processorLoop ps1 run = (Completed, r1)"
    and "process p (runContext r1) = (Returned result, ctx')"
    and "\<not> canContinue result"
    and "rejectReason result = None \<or> rejectReason result = Some []"
  shows "processorLoop (ps1 @ p # ps2) run
     = (Rejected ''Message rejected by processor.'',
        r1\<lparr>runContext :=
              ctx'\<lparr>message := (message ctx')\<lparr>rejectedWith := Some ''Message rejected by processor.''\<rparr>\<rparr>,
            console := console r1
              @ [ConsoleWarn (''Email rejected by ''
                              @ (if constructorName p = [] then ''Unknown'' else constructorName p)
                              @ '': No reason'')],
            invoked := invoked r1 @ [constructorName p]\<rparr>)"
  using assms(2-4)
  by (auto simp: processorLoop_append [OF assms(1)] orDefault_def setReject_def nameOf_def)

lemma processorLoop_continues:
  assumes "processorLoop ps1 run = (Completed, r1)"
    and "process p (runContext r1) = (Returned result, ctx')"
    and "canContinue result"
  shows "processorLoop (ps1 @ p # ps2) run
     = processorLoop ps2 (r1\<lparr>runContext := ctx', invoked := invoked r1 @ [constructorName p]\<rparr>)"
  using assms(2,3) by (simp add: processorLoop_append [OF assms(1)])

lemma processorLoop_throws:
  assumes "processorLoop ps1 run = (Completed, r1)"
    and "process p (runContext r1) = (Threw err, ctx')"
  shows "processorLoop (ps1 @ p # ps2) run
     = processorLoop ps2
         (r1\<lparr>runContext := ctx',
             console := console r1
               @ [ConsoleError (''Error in ''
                                @ (if constructorName p = [] then ''Unknown'' else constructorName p)) err],
             invoked := invoked r1 @ [constructorName p]\<rparr>)"
  using assms(2) by (simp add: processorLoop_append [OF assms(1)] nameOf_def)

lemma constructorName_processors:
  "map constructorName (processors pf)
   = [''SpamCheckProcessor'', ''ParsingProcessor'', ''DomainCollapseProcessor'',
      ''SubaddressingProcessor'', ''PreDeliveryProcessor'', ''DeliveryProcessor'']"
  by (simp add: processors_def)

lemma email_rejected:
  assumes "fst (processorLoop (processors pf)
             \<lparr>runContext = \<lparr>message = msg, env = e, rawEmail = None, parsedEmail = None,
                            finalRawEmail = None\<rparr>,
              console = [], invoked = []\<rparr>) = Rejected reason"
  shows "email pf msg e
         = snd (processorLoop (processors pf)
             \<lparr>runContext = \<lparr>message = msg, env = e, rawEmail = None, parsedEmail = None,
                            finalRawEmail = None\<rparr>,
              console = [], invoked = []\<rparr>)
         \<and> rejectedWith (message (runContext (email pf msg e))) = Some reason"
proof -
  let ?run = "\<lparr>runContext = \<lparr>message = msg, env = e, rawEmail = None, parsedEmail = None,
                            finalRawEmail = None\<rparr>,
              console = [], invoked = []\<rparr>"
  obtain r where l: "processorLoop (processors pf) ?run = (Rejected reason, r)"
    using assms by (cases "processorLoop (processors pf) ?run") simp
  then have "email pf msg e = r" by (simp add: email_def)
  with l processorLoop_rejected_with [OF l] show ?thesis by simp
qed

lemma email_completed:
  assumes "fst (processorLoop (processors pf)
             \<lparr>runContext = \<lparr>message = msg, env = e, rawEmail = None, parsedEmail = None,
                            finalRawEmail = None\<rparr>,
              console = [], invoked = []\<rparr>) = Completed"
  shows "email pf msg e
         = (snd (processorLoop (processors pf)
             \<lparr>runContext = \<lparr>message = msg, env = e, rawEmail = None, parsedEmail = None,
                            finalRawEmail = None\<rparr>,
              console = [], invoked = []\<rparr>))
           \<lparr>console := console (snd (processorLoop (processors pf)
             \<lparr>runContext = \<lparr>message = msg, env = e, rawEmail = None, parsedEmail = None,
                            finalRawEmail = None\<rparr>,
              console = [], invoked = []\<rparr>))
              @ [ConsoleLog ''Email processed successfully through all processors.'']\<rparr>
         \<and> invoked (email pf msg e)
           = [''SpamCheckProcessor'', ''ParsingProcessor'', ''DomainCollapseProcessor'',
              ''SubaddressingProcessor'', ''PreDeliveryProcessor'', ''DeliveryProcessor'']"
proof -
  let ?run = "\<lparr>runContext = \<lparr>message = msg, env = e, rawEmail = None, parsedEmail = None,
                            finalRawEmail = None\<rparr>,
              console = [], invoked = []\<rparr>"
  obtain r where l: "processorLoop (processors pf) ?run = (Completed, r)"
    using assms by (cases "processorLoop (processors pf) ?run") simp
  then have e: "email pf msg e
      = r\<lparr>console := console r @ [ConsoleLog ''Email processed successfully through all processors.'']\<rparr>"
    by (simp add: email_def)
  from processorLoop_invoked [of "processors pf" ?run] l
  have "invoked r = map constructorName (processors pf)" by auto
  with e l show ?thesis by (simp add: constructorName_processors)
qed

lemma email_invoked:
  "\<exists>k \<le> 6. invoked (email pf msg e)
            = take k [''SpamCheckProcessor'', ''ParsingProcessor'', ''DomainCollapseProcessor'',
                      ''SubaddressingProcessor'', ''PreDeliveryProcessor'', ''DeliveryProcessor'']"
proof -
  let ?run = "\<lparr>runContext = \<lparr>message = msg, env = e, rawEmail = None, parsedEmail = None,
                            finalRawEmail = None\<rparr>,
              console = [], invoked = []\<rparr>"
  have i: "invoked (email pf msg e) = invoked (snd (processorLoop (processors pf) ?run))"
    by (cases "processorLoop (processors pf) ?run" rule: prod.exhaust [case_names Pair],
        cases "fst (processorLoop (processors pf) ?run)")
       (simp_all add: email_def)
  from processorLoop_invoked [of "processors pf" ?run]
  obtain k where k: "k \<le> length (processors pf)"
    "invoked (snd (processorLoop (processors pf) ?run)) = map constructorName (take k (processors pf))"
    by auto
  have len: "length (processors pf) = 6" by (simp add: processors_def)
  from k i len show ?thesis
    by (intro exI [of _ k]) (simp add: take_map [symmetric] constructorName_processors)
qed

text \<open>
  Claim C1, for every list of processors and every state of the run, and for the handler
  \<open>email\<close> with its six processors. The processors whose \<open>process\<close> is called are the
  first \<open>k\<close> of the list, in the order of the list, and all of them when the run
  completes. When the processors before \<open>p\<close> have run without a rejection and \<open>p\<close>
  returns a result that cannot continue, the run ends there, whatever the processors after
  \<open>p\<close> are, and \<open>p\<close> is the last processor called: if \<open>p\<close> gave a reason of its own
  (a string that is not empty), the run is rejected with exactly that reason, the message
  is rejected with it and the warning on the console ends with it; if \<open>p\<close> gave none, the
  reason is \<open>Message rejected by processor.\<close> and the warning ends with \<open>No reason\<close>.
  When \<open>p\<close> returns a result that can continue, the loop goes on with the processors after
  \<open>p\<close> from the context the call left. When \<open>p\<close> throws, the error is written to the
  console and the loop goes on in the same way: the run ends as it would have ended had
  every throwing call returned \<open>continue\<close> instead (same verdict, same final context, same
  processors called), where \<open>asContinue p\<close> returns \<open>continue\<close> where \<open>p\<close> throws and is
  \<open>p\<close> otherwise. The handler runs this loop over its six processors in their fixed
  order: the processors called are a prefix of that list; when the loop rejects with a
  reason, the handler leaves the message rejected with that reason; when the loop
  completes, all six have been called and the handler writes its last line to the console.
\<close>

theorem processorLoop_contract:
  "(\<exists>k \<le> length ps.
      invoked (snd (processorLoop ps run)) = invoked run @ map constructorName (take k ps)
      \<and> (fst (processorLoop ps run) = Completed \<longrightarrow> k = length ps))
   \<and> (\<forall>ps1 p ps2 r1 result ctx'.
         ps = ps1 @ p # ps2 \<and> processorLoop ps1 run = (Completed, r1)
         \<and> process p (runContext r1) = (Returned result, ctx') \<and> \<not> canContinue result
         \<longrightarrow> (\<forall>own. rejectReason result = Some own \<and> own \<noteq> []
                \<longrightarrow> processorLoop ps run
                    = (Rejected own,
                       r1\<lparr>runContext := ctx'\<lparr>message := (message ctx')\<lparr>rejectedWith := Some own\<rparr>\<rparr>,
                           console := console r1
                             @ [ConsoleWarn (''Email rejected by ''
                                  @ (if constructorName p = [] then ''Unknown'' else constructorName p)
                                  @ '': '' @ own)],
                           invoked := invoked r1 @ [constructorName p]\<rparr>))
             \<and> (rejectReason result = None \<or> rejectReason result = Some []
                \<longrightarrow> processorLoop ps run
                    = (Rejected ''Message rejected by processor.'',
                       r1\<lparr>runContext :=
                             ctx'\<lparr>message :=
                                    (message ctx')\<lparr>rejectedWith := Some ''Message rejected by processor.''\<rparr>\<rparr>,
                           console := console r1
                             @ [ConsoleWarn (''Email rejected by ''
                                  @ (if constructorName p = [] then ''Unknown'' else constructorName p)
                                  @ '': No reason'')],
                           invoked := invoked r1 @ [constructorName p]\<rparr>)))
   \<and> (\<forall>ps1 p ps2 r1 result ctx'.
         ps = ps1 @ p # ps2 \<and> processorLoop ps1 run = (Completed, r1)
         \<and> process p (runContext r1) = (Returned result, ctx') \<and> canContinue result
         \<longrightarrow> processorLoop ps run
             = processorLoop ps2
                 (r1\<lparr>runContext := ctx', invoked := invoked r1 @ [constructorName p]\<rparr>))
   \<and> (\<forall>ps1 p ps2 r1 err ctx'.
         ps = ps1 @ p # ps2 \<and> processorLoop ps1 run = (Completed, r1)
         \<and> process p (runContext r1) = (Threw err, ctx')
         \<longrightarrow> processorLoop ps run
             = processorLoop ps2
                 (r1\<lparr>runContext := ctx',
                     console := console r1
                       @ [ConsoleError (''Error in ''
                            @ (if constructorName p = [] then ''Unknown'' else constructorName p)) err],
                     invoked := invoked r1 @ [constructorName p]\<rparr>))
   \<and> fst (processorLoop (map asContinue ps) run) = fst (processorLoop ps run)
   \<and> runContext (snd (processorLoop (map asContinue ps) run)) = runContext (snd (processorLoop ps run))
   \<and> invoked (snd (processorLoop (map asContinue ps) run)) = invoked (snd (processorLoop ps run))
   \<and> (\<forall>p c c'.
         constructorName (asContinue p) = constructorName p
         \<and> (\<forall>err. process p c = (Threw err, c')
              \<longrightarrow> process (asContinue p) c = (Returned \<lparr>canContinue = True, rejectReason = None\<rparr>, c'))
         \<and> (\<forall>result. process p c = (Returned result, c')
              \<longrightarrow> process (asContinue p) c = (Returned result, c')))
   \<and> map constructorName (processors pf)
     = [''SpamCheckProcessor'', ''ParsingProcessor'', ''DomainCollapseProcessor'',
        ''SubaddressingProcessor'', ''PreDeliveryProcessor'', ''DeliveryProcessor'']
   \<and> (\<exists>k \<le> 6. invoked (email pf msg e)
                = take k [''SpamCheckProcessor'', ''ParsingProcessor'', ''DomainCollapseProcessor'',
                          ''SubaddressingProcessor'', ''PreDeliveryProcessor'', ''DeliveryProcessor''])
   \<and> (\<forall>reason.
         fst (processorLoop (processors pf)
                \<lparr>runContext = \<lparr>message = msg, env = e, rawEmail = None, parsedEmail = None,
                               finalRawEmail = None\<rparr>,
                 console = [], invoked = []\<rparr>) = Rejected reason
         \<longrightarrow> email pf msg e
             = snd (processorLoop (processors pf)
                \<lparr>runContext = \<lparr>message = msg, env = e, rawEmail = None, parsedEmail = None,
                               finalRawEmail = None\<rparr>,
                 console = [], invoked = []\<rparr>)
             \<and> rejectedWith (message (runContext (email pf msg e))) = Some reason)
   \<and> (fst (processorLoop (processors pf)
              \<lparr>runContext = \<lparr>message = msg, env = e, rawEmail = None, parsedEmail = None,
                             finalRawEmail = None\<rparr>,
               console = [], invoked = []\<rparr>) = Completed
        \<longrightarrow> email pf msg e
            = (snd (processorLoop (processors pf)
                \<lparr>runContext = \<lparr>message = msg, env = e, rawEmail = None, parsedEmail = None,
                               finalRawEmail = None\<rparr>,
                 console = [], invoked = []\<rparr>))
              \<lparr>console := console (snd (processorLoop (processors pf)
                \<lparr>runContext = \<lparr>message = msg, env = e, rawEmail = None, parsedEmail = None,
                               finalRawEmail = None\<rparr>,
                 console = [], invoked = []\<rparr>))
                 @ [ConsoleLog ''Email processed successfully through all processors.'']\<rparr>
            \<and> invoked (email pf msg e)
              = [''SpamCheckProcessor'', ''ParsingProcessor'', ''DomainCollapseProcessor'',
                 ''SubaddressingProcessor'', ''PreDeliveryProcessor'', ''DeliveryProcessor''])"
proof -
  have 1: "\<exists>k \<le> length ps.
      invoked (snd (processorLoop ps run)) = invoked run @ map constructorName (take k ps)
      \<and> (fst (processorLoop ps run) = Completed \<longrightarrow> k = length ps)"
    by (rule processorLoop_invoked)
  have 2: "\<forall>ps1 p ps2 r1 result ctx'.
         ps = ps1 @ p # ps2 \<and> processorLoop ps1 run = (Completed, r1)
         \<and> process p (runContext r1) = (Returned result, ctx') \<and> \<not> canContinue result
         \<longrightarrow> (\<forall>own. rejectReason result = Some own \<and> own \<noteq> []
                \<longrightarrow> processorLoop ps run
                    = (Rejected own,
                       r1\<lparr>runContext := ctx'\<lparr>message := (message ctx')\<lparr>rejectedWith := Some own\<rparr>\<rparr>,
                           console := console r1
                             @ [ConsoleWarn (''Email rejected by ''
                                  @ (if constructorName p = [] then ''Unknown'' else constructorName p)
                                  @ '': '' @ own)],
                           invoked := invoked r1 @ [constructorName p]\<rparr>))
             \<and> (rejectReason result = None \<or> rejectReason result = Some []
                \<longrightarrow> processorLoop ps run
                    = (Rejected ''Message rejected by processor.'',
                       r1\<lparr>runContext :=
                             ctx'\<lparr>message :=
                                    (message ctx')\<lparr>rejectedWith := Some ''Message rejected by processor.''\<rparr>\<rparr>,
                           console := console r1
                             @ [ConsoleWarn (''Email rejected by ''
                                  @ (if constructorName p = [] then ''Unknown'' else constructorName p)
                                  @ '': No reason'')],
                           invoked := invoked r1 @ [constructorName p]\<rparr>))"
  proof (intro allI impI conjI)
    fix ps1 p ps2 r1 result ctx' own
    assume a: "ps = ps1 @ p # ps2 \<and> processorLoop ps1 run = (Completed, r1)
         \<and> process p (runContext r1) = (Returned result, ctx') \<and> \<not> canContinue result"
      and b: "rejectReason result = Some own \<and> own \<noteq> []"
    from a b processorLoop_rejects_own [of ps1 run r1 p result ctx' own ps2]
    show "processorLoop ps run
                    = (Rejected own,
                       r1\<lparr>runContext := ctx'\<lparr>message := (message ctx')\<lparr>rejectedWith := Some own\<rparr>\<rparr>,
                           console := console r1
                             @ [ConsoleWarn (''Email rejected by ''
                                  @ (if constructorName p = [] then ''Unknown'' else constructorName p)
                                  @ '': '' @ own)],
                           invoked := invoked r1 @ [constructorName p]\<rparr>)"
      by simp
  next
    fix ps1 p ps2 r1 result ctx'
    assume a: "ps = ps1 @ p # ps2 \<and> processorLoop ps1 run = (Completed, r1)
         \<and> process p (runContext r1) = (Returned result, ctx') \<and> \<not> canContinue result"
      and b: "rejectReason result = None \<or> rejectReason result = Some []"
    from a b processorLoop_rejects_default [of ps1 run r1 p result ctx' ps2]
    show "processorLoop ps run
                    = (Rejected ''Message rejected by processor.'',
                       r1\<lparr>runContext :=
                             ctx'\<lparr>message :=
                                    (message ctx')\<lparr>rejectedWith := Some ''Message rejected by processor.''\<rparr>\<rparr>,
                           console := console r1
                             @ [ConsoleWarn (''Email rejected by ''
                                  @ (if constructorName p = [] then ''Unknown'' else constructorName p)
                                  @ '': No reason'')],
                           invoked := invoked r1 @ [constructorName p]\<rparr>)"
      by simp
  qed
  have 3: "\<forall>ps1 p ps2 r1 result ctx'.
         ps = ps1 @ p # ps2 \<and> processorLoop ps1 run = (Completed, r1)
         \<and> process p (runContext r1) = (Returned result, ctx') \<and> canContinue result
         \<longrightarrow> processorLoop ps run
             = processorLoop ps2
                 (r1\<lparr>runContext := ctx', invoked := invoked r1 @ [constructorName p]\<rparr>)"
    using processorLoop_continues by blast
  have 4: "\<forall>ps1 p ps2 r1 err ctx'.
         ps = ps1 @ p # ps2 \<and> processorLoop ps1 run = (Completed, r1)
         \<and> process p (runContext r1) = (Threw err, ctx')
         \<longrightarrow> processorLoop ps run
             = processorLoop ps2
                 (r1\<lparr>runContext := ctx',
                     console := console r1
                       @ [ConsoleError (''Error in ''
                            @ (if constructorName p = [] then ''Unknown'' else constructorName p)) err],
                     invoked := invoked r1 @ [constructorName p]\<rparr>)"
    using processorLoop_throws by blast
  have 5: "fst (processorLoop (map asContinue ps) run) = fst (processorLoop ps run)"
    and 6: "runContext (snd (processorLoop (map asContinue ps) run)) = runContext (snd (processorLoop ps run))"
    and 7: "invoked (snd (processorLoop (map asContinue ps) run)) = invoked (snd (processorLoop ps run))"
    by (simp_all add: processorLoop_asContinue)
  have 8: "\<forall>p c c'.
         constructorName (asContinue p) = constructorName p
         \<and> (\<forall>err. process p c = (Threw err, c')
              \<longrightarrow> process (asContinue p) c = (Returned \<lparr>canContinue = True, rejectReason = None\<rparr>, c'))
         \<and> (\<forall>result. process p c = (Returned result, c')
              \<longrightarrow> process (asContinue p) c = (Returned result, c'))"
    by (simp add: process_asContinue constructorName_asContinue continue_def)
  note 9 = constructorName_processors [of pf]
  note 10 = email_invoked [of pf msg e]
  have 11: "\<forall>reason.
         fst (processorLoop (processors pf)
                \<lparr>runContext = \<lparr>message = msg, env = e, rawEmail = None, parsedEmail = None,
                               finalRawEmail = None\<rparr>,
                 console = [], invoked = []\<rparr>) = Rejected reason
         \<longrightarrow> email pf msg e
             = snd (processorLoop (processors pf)
                \<lparr>runContext = \<lparr>message = msg, env = e, rawEmail = None, parsedEmail = None,
                               finalRawEmail = None\<rparr>,
                 console = [], invoked = []\<rparr>)
             \<and> rejectedWith (message (runContext (email pf msg e))) = Some reason"
    by (intro allI impI) (rule email_rejected)
  have 12: "fst (processorLoop (processors pf)
              \<lparr>runContext = \<lparr>message = msg, env = e, rawEmail = None, parsedEmail = None,
                             finalRawEmail = None\<rparr>,
               console = [], invoked = []\<rparr>) = Completed
        \<longrightarrow> email pf msg e
            = (snd (processorLoop (processors pf)
                \<lparr>runContext = \<lparr>message = msg, env = e, rawEmail = None, parsedEmail = None,
                               finalRawEmail = None\<rparr>,
                 console = [], invoked = []\<rparr>))
              \<lparr>console := console (snd (processorLoop (processors pf)
                \<lparr>runContext = \<lparr>message = msg, env = e, rawEmail = None, parsedEmail = None,
                               finalRawEmail = None\<rparr>,
                 console = [], invoked = []\<rparr>))
                 @ [ConsoleLog ''Email processed successfully through all processors.'']\<rparr>
            \<and> invoked (email pf msg e)
              = [''SpamCheckProcessor'', ''ParsingProcessor'', ''DomainCollapseProcessor'',
                 ''SubaddressingProcessor'', ''PreDeliveryProcessor'', ''DeliveryProcessor'']"
    by (intro impI) (rule email_completed)
  from 1 2 3 4 5 6 7 8 9 10 11 12 show ?thesis by (intro conjI)
qed

theorem processorLoop_contract_witness:
  "processorLoop [faultyProcessor] (initialRun (inboundMessage None None [] 0) noEnv)
     = (Completed,
        \<lparr>runContext = \<lparr>message = inboundMessage None None [] 0, env = noEnv, rawEmail = Some [],
                        parsedEmail = None, finalRawEmail = None\<rparr>,
         console = [ConsoleError ''Error in Faulty'' (Error ''boom'')],
         invoked = [''Faulty'']\<rparr>)
   \<and> processorLoop [faultyProcessor, strictProcessor, lateProcessor]
        (initialRun (inboundMessage None None [] 0) noEnv)
     = (Rejected ''No entry.'',
        \<lparr>runContext =
           \<lparr>message = (inboundMessage None None [] 0)\<lparr>rejectedWith := Some ''No entry.''\<rparr>,
            env = noEnv, rawEmail = Some [], parsedEmail = None, finalRawEmail = None\<rparr>,
         console = [ConsoleError ''Error in Faulty'' (Error ''boom''),
                    ConsoleWarn ''Email rejected by Strict: No entry.''],
         invoked = [''Faulty'', ''Strict'']\<rparr>)
   \<and> fst (processorLoop (map asContinue [faultyProcessor, strictProcessor, lateProcessor])
          (initialRun (inboundMessage None None [] 0) noEnv))
     = Rejected ''No entry.''
   \<and> process (asContinue faultyProcessor)
        (runContext (initialRun (inboundMessage None None [] 0) noEnv))
     = (Returned \<lparr>canContinue = True, rejectReason = None\<rparr>,
        \<lparr>message = inboundMessage None None [] 0, env = noEnv, rawEmail = Some [],
         parsedEmail = None, finalRawEmail = None\<rparr>)
   \<and> processorLoop [lateProcessor] (initialRun (inboundMessage None None [] 0) noEnv)
     = (Completed,
        \<lparr>runContext = \<lparr>message = inboundMessage None None [] 0, env = noEnv, rawEmail = None,
                        parsedEmail = None, finalRawEmail = Some []\<rparr>,
         console = [], invoked = [''Late'']\<rparr>)
   \<and> processorLoop [lateProcessor, silentProcessor, strictProcessor]
        (initialRun (inboundMessage None None [] 0) noEnv)
     = (Rejected ''Message rejected by processor.'',
        \<lparr>runContext =
           \<lparr>message = (inboundMessage None None [] 0)
                          \<lparr>rejectedWith := Some ''Message rejected by processor.''\<rparr>,
            env = noEnv, rawEmail = None, parsedEmail = None, finalRawEmail = Some []\<rparr>,
         console = [ConsoleWarn ''Email rejected by Unknown: No reason''],
         invoked = [''Late'', '''']\<rparr>)
   \<and> invoked (email (answeringPlatform \<lparr>ok = True, status = 200, statusText = ''OK''\<rparr> ''<int>7</int>'')
                (inboundMessage (Some ''spam@example.com'') None [] 0) noEnv)
     = [''SpamCheckProcessor'']
   \<and> rejectedWith (message (runContext
        (email (answeringPlatform \<lparr>ok = True, status = 200, statusText = ''OK''\<rparr> ''<int>7</int>'')
           (inboundMessage (Some ''spam@example.com'') None [] 0) noEnv)))
     = Some ''Sender is blocked.''
   \<and> invoked
        (email (answeringPlatform \<lparr>ok = True, status = 200, statusText = ''OK''\<rparr> ''<int>7</int>'')
           (inboundMessage (Some ''Bob <bob@example.org>'') (Some ''Hello'')
              [encode byteCodec (''To: bob@example.com'' @ [CHR 0x0D, CHR 0x0A, CHR 0x0D, CHR 0x0A] @ ''Hi'')]
              25)
           noEnv)
     = [''SpamCheckProcessor'', ''ParsingProcessor'', ''DomainCollapseProcessor'',
        ''SubaddressingProcessor'', ''PreDeliveryProcessor'', ''DeliveryProcessor'']"
proof -
  let ?msg = "inboundMessage None None [] 0"
  let ?run = "initialRun ?msg noEnv"
  let ?ctx0 = "\<lparr>message = ?msg, env = noEnv, rawEmail = None, parsedEmail = None,
                finalRawEmail = None\<rparr>"
  let ?ctx1 = "\<lparr>message = ?msg, env = noEnv, rawEmail = Some [], parsedEmail = None,
                finalRawEmail = None\<rparr>"
  let ?ctx2 = "\<lparr>message = ?msg, env = noEnv, rawEmail = None, parsedEmail = None,
                finalRawEmail = Some []\<rparr>"
  let ?r1 = "\<lparr>runContext = ?ctx1,
             console = [ConsoleError ''Error in Faulty'' (Error ''boom'')],
             invoked = [''Faulty'']\<rparr>"
  let ?r2 = "\<lparr>runContext = ?ctx2, console = [], invoked = [''Late'']\<rparr>"
  let ?own = "\<lparr>canContinue = False, rejectReason = Some ''No entry.''\<rparr>"
  let ?none = "\<lparr>canContinue = False, rejectReason = None\<rparr>"
  have nil: "processorLoop [] ?run = (Completed, ?run)" by simp
  have ctx0: "runContext ?run = ?ctx0" by (simp add: initialRun_def)

  txt \<open>A processor that throws: the loop goes on.\<close>
  note throws = processorLoop_contract [where ps = "[faultyProcessor]" and run = ?run,
      THEN conjunct2, THEN conjunct2, THEN conjunct2, THEN conjunct1, rule_format,
      of "[]" faultyProcessor "[]" ?run "Error ''boom''" ?ctx1]
  have a: "processorLoop [faultyProcessor] ?run = (Completed, ?r1)"
    using throws nil by (simp add: faultyProcessor_def initialRun_def)

  txt \<open>A processor that rejects with a reason of its own, after the one that throws.\<close>
  note own = processorLoop_contract
      [where ps = "[faultyProcessor, strictProcessor, lateProcessor]" and run = ?run,
       THEN conjunct2, THEN conjunct1, rule_format,
       of "[faultyProcessor]" strictProcessor "[lateProcessor]" ?r1 ?own ?ctx1,
       THEN conjunct1, rule_format, of "''No entry.''"]
  have b: "processorLoop [faultyProcessor, strictProcessor, lateProcessor] ?run
     = (Rejected ''No entry.'',
        \<lparr>runContext = \<lparr>message = ?msg\<lparr>rejectedWith := Some ''No entry.''\<rparr>,
            env = noEnv, rawEmail = Some [], parsedEmail = None, finalRawEmail = None\<rparr>,
         console = [ConsoleError ''Error in Faulty'' (Error ''boom''),
                    ConsoleWarn ''Email rejected by Strict: No entry.''],
         invoked = [''Faulty'', ''Strict'']\<rparr>)"
    using own a by (simp add: strictProcessor_def)

  txt \<open>The same run with every throwing call replaced by \<open>continue\<close>.\<close>
  note same = processorLoop_contract
      [where ps = "[faultyProcessor, strictProcessor, lateProcessor]" and run = ?run,
       THEN conjunct2, THEN conjunct2, THEN conjunct2, THEN conjunct2, THEN conjunct1]
  have c: "fst (processorLoop (map asContinue [faultyProcessor, strictProcessor, lateProcessor]) ?run)
           = Rejected ''No entry.''"
    using same b by simp
  note asCont = processorLoop_contract
      [where ps = "[]" and run = ?run,
       THEN conjunct2, THEN conjunct2, THEN conjunct2, THEN conjunct2, THEN conjunct2,
       THEN conjunct2, THEN conjunct2, THEN conjunct1, rule_format,
       of faultyProcessor ?ctx0 ?ctx1, THEN conjunct2, THEN conjunct1, rule_format,
       of "Error ''boom''"]
  have d: "process (asContinue faultyProcessor) (runContext ?run)
           = (Returned \<lparr>canContinue = True, rejectReason = None\<rparr>, ?ctx1)"
    using asCont by (simp add: ctx0 faultyProcessor_def)

  txt \<open>A processor that continues, and one that rejects without a reason after it.\<close>
  note continues = processorLoop_contract [where ps = "[lateProcessor]" and run = ?run,
      THEN conjunct2, THEN conjunct2, THEN conjunct1, rule_format,
      of "[]" lateProcessor "[]" ?run continue ?ctx2]
  have e: "processorLoop [lateProcessor] ?run = (Completed, ?r2)"
    using continues nil by (simp add: lateProcessor_def initialRun_def continue_def)
  note default = processorLoop_contract
      [where ps = "[lateProcessor, silentProcessor, strictProcessor]" and run = ?run,
       THEN conjunct2, THEN conjunct1, rule_format,
       of "[lateProcessor]" silentProcessor "[strictProcessor]" ?r2 ?none ?ctx2,
       THEN conjunct2, rule_format]
  have f: "processorLoop [lateProcessor, silentProcessor, strictProcessor] ?run
     = (Rejected ''Message rejected by processor.'',
        \<lparr>runContext =
           \<lparr>message = ?msg\<lparr>rejectedWith := Some ''Message rejected by processor.''\<rparr>,
            env = noEnv, rawEmail = None, parsedEmail = None, finalRawEmail = Some []\<rparr>,
         console = [ConsoleWarn ''Email rejected by Unknown: No reason''],
         invoked = [''Late'', '''']\<rparr>)"
    using default e by (simp add: silentProcessor_def)

  txt \<open>The handler on a message of a blocked sender, and on one that is delivered.\<close>
  let ?pf = "answeringPlatform \<lparr>ok = True, status = 200, statusText = ''OK''\<rparr> ''<int>7</int>''"
  let ?spam = "inboundMessage (Some ''spam@example.com'') None [] 0"
  let ?good = "inboundMessage (Some ''Bob <bob@example.org>'') (Some ''Hello'')
              [encode byteCodec (''To: bob@example.com'' @ [CHR 0x0D, CHR 0x0A, CHR 0x0D, CHR 0x0A] @ ''Hi'')]
              25"
  have rj: "fst (processorLoop (processors ?pf)
                \<lparr>runContext = \<lparr>message = ?spam, env = noEnv, rawEmail = None, parsedEmail = None,
                               finalRawEmail = None\<rparr>,
                 console = [], invoked = []\<rparr>) = Rejected ''Sender is blocked.''"
    by code_simp
  have g: "invoked (email ?pf ?spam noEnv) = [''SpamCheckProcessor'']"
    by code_simp
  note rejected = processorLoop_contract [where pf = ?pf and msg = ?spam and e = noEnv,
      THEN conjunct2, THEN conjunct2, THEN conjunct2, THEN conjunct2, THEN conjunct2,
      THEN conjunct2, THEN conjunct2, THEN conjunct2, THEN conjunct2, THEN conjunct2,
      THEN conjunct1, rule_format, OF rj, THEN conjunct2]
  have h: "rejectedWith (message (runContext (email ?pf ?spam noEnv))) = Some ''Sender is blocked.''"
    by (rule rejected)
  have cp: "fst (processorLoop (processors ?pf)
                \<lparr>runContext = \<lparr>message = ?good, env = noEnv, rawEmail = None, parsedEmail = None,
                               finalRawEmail = None\<rparr>,
                 console = [], invoked = []\<rparr>) = Completed"
    by code_simp
  note completed = processorLoop_contract [where pf = ?pf and msg = ?good and e = noEnv,
      THEN conjunct2, THEN conjunct2, THEN conjunct2, THEN conjunct2, THEN conjunct2,
      THEN conjunct2, THEN conjunct2, THEN conjunct2, THEN conjunct2, THEN conjunct2,
      THEN conjunct2, rule_format, OF cp, THEN conjunct2]
  have i: "invoked (email ?pf ?good noEnv)
     = [''SpamCheckProcessor'', ''ParsingProcessor'', ''DomainCollapseProcessor'',
        ''SubaddressingProcessor'', ''PreDeliveryProcessor'', ''DeliveryProcessor'']"
    by (rule completed)
  from a b c d e f g h i show ?thesis by (intro conjI)
qed

section \<open>The handler on an example\<close>

text \<open>A message to \<open>bob+newsletter@example.com\<close> with the subject \<open>Hello\<close>, delivered in
  two chunks to a CRM that answers with a record id: all six processors are called in
  order, and the headers leave as \<open>To: bob@example.com\<close> and
  \<open>Subject: [newsletter] Hello\<close>.\<close>

lemma email_example:
  "map_option headers (parsedEmail (runContext
     (email (answeringPlatform \<lparr>ok = True, status = 200, statusText = ''OK''\<rparr> ''<int>7</int>'')
        (inboundMessage (Some ''Bob <bob@example.org>'') (Some ''Hello'')
           [encode byteCodec (''To: bob+newsletter@example.com'' @ [CHR 0x0D, CHR 0x0A]),
            encode byteCodec (''Subject: Hello'' @ [CHR 0x0D, CHR 0x0A, CHR 0x0D, CHR 0x0A] @ ''Hi'')]
           52)
        noEnv)))
   = Some [mkHeader ''To'' ''bob@example.com'', mkHeader ''Subject'' ''[newsletter] Hello'']
   \<and> invoked
     (email (answeringPlatform \<lparr>ok = True, status = 200, statusText = ''OK''\<rparr> ''<int>7</int>'')
        (inboundMessage (Some ''Bob <bob@example.org>'') (Some ''Hello'')
           [encode byteCodec (''To: bob+newsletter@example.com'' @ [CHR 0x0D, CHR 0x0A]),
            encode byteCodec (''Subject: Hello'' @ [CHR 0x0D, CHR 0x0A, CHR 0x0D, CHR 0x0A] @ ''Hi'')]
           52)
        noEnv)
   = [''SpamCheckProcessor'', ''ParsingProcessor'', ''DomainCollapseProcessor'',
      ''SubaddressingProcessor'', ''PreDeliveryProcessor'', ''DeliveryProcessor'']"
  by code_simp

end
